theory Spec2Isabelle
  imports Main
begin

section \<open>Strings\<close>

text \<open>
  A Python \<^verbatim>\<open>str\<close> is a sequence of Unicode code points and \<^verbatim>\<open>len\<close> counts code points.
  The catalogue and the user interface of the bot are written in Cyrillic with emoji, so
  a string is modelled as the list of its code points. ASCII literals are written through
  \<open>ascii\<close>; other literals are given as code point lists, with an English gloss.
\<close>

type_synonym pystr = "nat list"

definition ascii :: "string \<Rightarrow> pystr" where
  "ascii s = map of_char s"

text \<open>\<^verbatim>\<open>s.startswith(p)\<close>\<close>

definition startswith :: "pystr \<Rightarrow> pystr \<Rightarrow> bool" where
  "startswith s p = (take (length p) s = p)"

text \<open>\<^verbatim>\<open>p in s\<close> on strings: \<open>p\<close> occurs in \<open>s\<close> as a contiguous substring.\<close>

fun contains :: "pystr \<Rightarrow> pystr \<Rightarrow> bool" where
  "contains [] p = (p = [])"
| "contains (c # s) p = (startswith (c # s) p \<or> contains s p)"

text \<open>\<^verbatim>\<open>s.endswith(p)\<close>; the source never calls it, the specification speaks of it.\<close>

definition endswith :: "pystr \<Rightarrow> pystr \<Rightarrow> bool" where
  "endswith s p = (length p \<le> length s \<and> drop (length s - length p) s = p)"

section \<open>Summary truncation (line 235 of bot.py)\<close>

text \<open>
  \<^verbatim>\<open>clean_text = clean_text[:250] + '...' if len(clean_text) > 250 else clean_text\<close>
  The conditional expression binds weaker than \<open>+\<close>, so the ellipsis is appended only in
  the long branch.
\<close>

definition ellipsis :: pystr where
  "ellipsis = ascii ''...''"

definition truncate_summary :: "pystr \<Rightarrow> pystr" where
  "truncate_summary clean_text =
     (if length clean_text > 250 then take 250 clean_text @ ellipsis else clean_text)"

section \<open>Data model\<close>

text \<open>
  An article is a Python dict with the keys \<^verbatim>\<open>title\<close>, \<^verbatim>\<open>summary\<close>, \<^verbatim>\<open>link\<close>,
  \<^verbatim>\<open>category\<close> and \<^verbatim>\<open>is_fallback\<close>. Every article dict of the program has the first
  two keys; the other three may be absent (\<open>None\<close>): the fallback records of the
  catalogue are written with a title and a summary only.
\<close>

record article =
  title :: pystr
  summary :: pystr
  link :: "pystr option"
  category :: "pystr option"
  is_fallback :: "bool option"

text \<open>
  Article dicts are objects with identity: \<^verbatim>\<open>use_fallback_article\<close> stores in
  \<^verbatim>\<open>self.current_article\<close> a reference to a dict that is also an element of the
  catalogue, and then updates it in place. So article dicts live in a store (\<open>heap\<close>, a
  list, the address of an object being its index), and the catalogue and the draft slot
  hold addresses.
\<close>

type_synonym ref = nat

text \<open>One value of \<^verbatim>\<open>self.categories\<close>.\<close>

record category_cfg =
  name :: pystr
  emoji :: pystr
  rss :: "pystr list"
  image_keywords :: "pystr list"
  fallback_images :: "pystr list"
  fallback_articles :: "ref list"

text \<open>The chat transport: the keyword arguments of the Telegram calls the bot makes.\<close>

datatype markup =
    InlineKeyboard "(pystr \<times> pystr) list list"
  | ReplyKeyboard "pystr list list"

datatype tg_method =
    reply_text | reply_photo | edit_message_media | edit_message_text | send_photo
  | answer

record request =
  req_method :: tg_method
  req_chat_id :: "pystr option"
  req_photo :: "pystr option"
  req_text :: pystr
  req_markup :: "markup option"
  req_markdown :: bool

text \<open>
  Everything the bot does to the outside world is recorded in a trace, in order: a draw
  of the random generator, an HTTP GET of a feed, an HTTP GET of an article page, an HTTP
  HEAD probe, and one attempt of a Telegram call with its outcome (\<open>True\<close>: accepted).
\<close>

datatype event =
    Draw nat
  | FeedGet pystr
  | PageGet pystr
  | Head pystr
  | Send request bool

text \<open>
  The outside world is a parameter. Each oracle is asked at a time, the number of events
  so far, so that a feed, a page or the transport may answer differently on each call.
  \<^item> \<open>rng t\<close>: the raw random number drawn at time \<open>t\<close>;
  \<^item> \<open>feed t url\<close>: \<open>None\<close> when \<^verbatim>\<open>session.get\<close>, \<^verbatim>\<open>raise_for_status\<close> or the parser
    raises (network error, timeout, non-2xx status), otherwise \<^verbatim>\<open>feed.entries\<close>;
  \<^item> \<open>page t url\<close>: \<open>None\<close> when fetching or parsing the page raises, otherwise the
    \<^verbatim>\<open>meta\<close> and \<^verbatim>\<open>img\<close> tags of the page;
  \<^item> \<open>probe t url\<close>: \<open>None\<close> when \<^verbatim>\<open>session.head\<close> raises, otherwise the status code;
  \<^item> \<open>deliver t r\<close>: whether the Telegram call \<open>r\<close> made at time \<open>t\<close> returns
    (\<open>True\<close>) or raises.
\<close>

text \<open>
  A feed entry: \<^verbatim>\<open>entry.title\<close> and \<^verbatim>\<open>entry.link\<close> raise AttributeError when the
  entry has no such field (\<open>None\<close>); \<open>entry_text\<close> is the text that
  \<^verbatim>\<open>BeautifulSoup(summary).get_text(separator=' ', strip=True)\<close> returns for the entry's
  summary (or description, or the empty string).
\<close>

record entry =
  entry_title :: "pystr option"
  entry_link :: "pystr option"
  entry_text :: pystr

text \<open>
  A parsed page: for each \<^verbatim>\<open>meta\<close> tag its \<^verbatim>\<open>property\<close> and \<^verbatim>\<open>content\<close> attributes
  (\<open>None\<close> when absent), and the \<^verbatim>\<open>src\<close> of each \<^verbatim>\<open>img\<close> tag that has one, in
  document order.
\<close>

record html =
  metas :: "(pystr option \<times> pystr option) list"
  imgs :: "pystr list"

record env =
  rng :: "nat \<Rightarrow> nat"
  feed :: "nat \<Rightarrow> pystr \<Rightarrow> entry list option"
  page :: "nat \<Rightarrow> pystr \<Rightarrow> html option"
  probe :: "nat \<Rightarrow> pystr \<Rightarrow> nat option"
  deliver :: "nat \<Rightarrow> request \<Rightarrow> bool"

text \<open>The instance state of \<^verbatim>\<open>ReliableNewsBot\<close>, with the store and the trace.\<close>

record bot =
  bot_token :: pystr
  channel_id :: "pystr option"
  categories :: "(pystr \<times> category_cfg) list"
  current_article :: "ref option"
  heap :: "article list"
  trace :: "event list"

datatype error = ValueError | KeyError | IndexError | TelegramError

text \<open>Which object a handler was given: an \<^verbatim>\<open>Update\<close> or a \<^verbatim>\<open>CallbackQuery\<close>.\<close>

datatype source = Update | CallbackQuery

definition now :: "bot \<Rightarrow> nat" where
  "now s = length (trace s)"

definition emit :: "event \<Rightarrow> bot \<Rightarrow> bot" where
  "emit e s = s\<lparr>trace := trace s @ [e]\<rparr>"

text \<open>
  \<^verbatim>\<open>random.choice(seq)\<close>: IndexError on an empty sequence, otherwise the element at an
  index below \<open>len(seq)\<close> that the generator picks; the raw draw is reduced modulo the
  length, so every index is picked by some draw.
\<close>

definition choice :: "env \<Rightarrow> 'a list \<Rightarrow> bot \<Rightarrow> (error + 'a) \<times> bot" where
  "choice e seq s =
     (if seq = [] then (Inl IndexError, s)
      else (Inr (seq ! (rng e (now s) mod length seq)), emit (Draw (rng e (now s))) s))"

section \<open>The catalogue (lines 47 to 86)\<close>

text \<open>The display name of \<^verbatim>\<open>tech\<close>: a laptop emoji, a space and the Russian for Technologies.\<close>

definition name_tech :: pystr where
  "name_tech =
     [128187, 32, 1058, 1077, 1093, 1085, 1086, 1083, 1086, 1075, 1080, 1080]"

text \<open>The laptop emoji.\<close>

definition emoji_tech :: pystr where
  "emoji_tech =
     [128187]"

text \<open>The Russian for technologies.\<close>

definition kw_tech_1 :: pystr where
  "kw_tech_1 =
     [1090, 1077, 1093, 1085, 1086, 1083, 1086, 1075, 1080, 1080]"

text \<open>The Russian for computer.\<close>

definition kw_tech_2 :: pystr where
  "kw_tech_2 =
     [1082, 1086, 1084, 1087, 1100, 1102, 1090, 1077, 1088]"

text \<open>The Russian for robot.\<close>

definition kw_tech_3 :: pystr where
  "kw_tech_3 =
     [1088, 1086, 1073, 1086, 1090]"

text \<open>New technologies in IT (in Russian).\<close>

definition title_tech_1 :: pystr where
  "title_tech_1 =
     [1053, 1086, 1074, 1099, 1077, 32, 1090, 1077, 1093, 1085, 1086, 1083, 1086, 1075,
      1080, 1080, 32, 1074, 32, 73, 84]"

text \<open>Modern technologies develop at a fast pace... (in Russian).\<close>

definition summary_tech_1 :: pystr where
  "summary_tech_1 =
     [1057, 1086, 1074, 1088, 1077, 1084, 1077, 1085, 1085, 1099, 1077, 32, 1090, 1077,
      1093, 1085, 1086, 1083, 1086, 1075, 1080, 1080, 32, 1088, 1072, 1079, 1074, 1080,
      1074, 1072, 1102, 1090, 1089, 1103, 32, 1073, 1099, 1089, 1090, 1088, 1099, 1084,
      1080, 32, 1090, 1077, 1084, 1087, 1072, 1084, 1080, 46, 46, 46]"

text \<open>Artificial intelligence (in Russian).\<close>

definition title_tech_2 :: pystr where
  "title_tech_2 =
     [1048, 1089, 1082, 1091, 1089, 1089, 1090, 1074, 1077, 1085, 1085, 1099, 1081, 32,
      1080, 1085, 1090, 1077, 1083, 1083, 1077, 1082, 1090]"

text \<open>AI changes our approach to solving problems... (in Russian).\<close>

definition summary_tech_2 :: pystr where
  "summary_tech_2 =
     [1048, 1048, 32, 1084, 1077, 1085, 1103, 1077, 1090, 32, 1085, 1072, 1096, 32,
      1087, 1086, 1076, 1093, 1086, 1076, 32, 1082, 32, 1088, 1077, 1096, 1077, 1085,
      1080, 1102, 32, 1079, 1072, 1076, 1072, 1095, 46, 46, 46]"

text \<open>The display name of \<^verbatim>\<open>politics\<close>: a classical building emoji, a space and the Russian for Politics.\<close>

definition name_politics :: pystr where
  "name_politics =
     [127963, 32, 1055, 1086, 1083, 1080, 1090, 1080, 1082, 1072]"

text \<open>The classical building emoji.\<close>

definition emoji_politics :: pystr where
  "emoji_politics =
     [127963]"

text \<open>The Russian for politics.\<close>

definition kw_politics_1 :: pystr where
  "kw_politics_1 =
     [1087, 1086, 1083, 1080, 1090, 1080, 1082, 1072]"

text \<open>The Russian for kremlin.\<close>

definition kw_politics_2 :: pystr where
  "kw_politics_2 =
     [1082, 1088, 1077, 1084, 1083, 1100]"

text \<open>The Russian for government.\<close>

definition kw_politics_3 :: pystr where
  "kw_politics_3 =
     [1087, 1088, 1072, 1074, 1080, 1090, 1077, 1083, 1100, 1089, 1090, 1074, 1086]"

text \<open>Political news (in Russian).\<close>

definition title_politics_1 :: pystr where
  "title_politics_1 =
     [1055, 1086, 1083, 1080, 1090, 1080, 1095, 1077, 1089, 1082, 1080, 1077, 32, 1085,
      1086, 1074, 1086, 1089, 1090, 1080]"

text \<open>Important political events are taking place... (in Russian).\<close>

definition summary_politics_1 :: pystr where
  "summary_politics_1 =
     [1042, 1072, 1078, 1085, 1099, 1077, 32, 1087, 1086, 1083, 1080, 1090, 1080, 1095,
      1077, 1089, 1082, 1080, 1077, 32, 1089, 1086, 1073, 1099, 1090, 1080, 1103, 32,
      1087, 1088, 1086, 1080, 1089, 1093, 1086, 1076, 1103, 1090, 46, 46, 46]"

text \<open>International relations (in Russian).\<close>

definition title_politics_2 :: pystr where
  "title_politics_2 =
     [1052, 1077, 1078, 1076, 1091, 1085, 1072, 1088, 1086, 1076, 1085, 1099, 1077, 32,
      1086, 1090, 1085, 1086, 1096, 1077, 1085, 1080, 1103]"

text \<open>Countries discuss new agreements... (in Russian).\<close>

definition summary_politics_2 :: pystr where
  "summary_politics_2 =
     [1057, 1090, 1088, 1072, 1085, 1099, 32, 1086, 1073, 1089, 1091, 1078, 1076, 1072,
      1102, 1090, 32, 1085, 1086, 1074, 1099, 1077, 32, 1089, 1086, 1075, 1083, 1072,
      1096, 1077, 1085, 1080, 1103, 46, 46, 46]"

definition tech :: pystr where
  "tech = ascii ''tech''"

definition politics :: pystr where
  "politics = ascii ''politics''"

text \<open>
  The four fallback article dicts written in the catalogue literal are the first four
  objects of the store, in the order of the literal.
\<close>

definition fallback_record :: "pystr \<Rightarrow> pystr \<Rightarrow> article" where
  "fallback_record t su =
     \<lparr>title = t, summary = su, link = None, category = None, is_fallback = None\<rparr>"

definition initial_heap :: "article list" where
  "initial_heap =
     [fallback_record title_tech_1 summary_tech_1,
      fallback_record title_tech_2 summary_tech_2,
      fallback_record title_politics_1 summary_politics_1,
      fallback_record title_politics_2 summary_politics_2]"

definition category_tech :: category_cfg where
  "category_tech =
     \<lparr>name = name_tech, emoji = emoji_tech,
      rss = [ascii ''https://habr.com/ru/rss/hub/python/'',
             ascii ''https://3dnews.ru/bitrix/rss.php'',
             ascii ''https://www.ixbt.com/export/news.rss'',
             ascii ''https://vc.ru/rss''],
      image_keywords = [kw_tech_1, kw_tech_2, kw_tech_3],
      fallback_images =
        [ascii ''https://images.unsplash.com/photo-1517430816045-df4b7de11d1d'',
         ascii ''https://images.unsplash.com/photo-1558494949-ef010cbdcc31''],
      fallback_articles = [0, 1]\<rparr>"

definition category_politics :: category_cfg where
  "category_politics =
     \<lparr>name = name_politics, emoji = emoji_politics,
      rss = [ascii ''https://lenta.ru/rss/news'',
             ascii ''https://www.kommersant.ru/RSS/news.xml'',
             ascii ''https://ria.ru/export/rss2/politics/index.xml'',
             ascii ''https://tass.ru/rss/v2.xml''],
      image_keywords = [kw_politics_1, kw_politics_2, kw_politics_3],
      fallback_images =
        [ascii ''https://images.unsplash.com/photo-1562601579-599dec564e06'',
         ascii ''https://images.unsplash.com/photo-1580130732478-4e339fb33746''],
      fallback_articles = [2, 3]\<rparr>"

text \<open>
  \<^verbatim>\<open>ReliableNewsBot.__init__\<close>, given the two environment variables (\<open>None\<close> when
  unset): a missing or empty token raises ValueError. The dict \<^verbatim>\<open>self.categories\<close> is
  an association list in insertion order.
\<close>

definition new_bot :: "pystr option \<Rightarrow> pystr option \<Rightarrow> error + bot" where
  "new_bot token channel =
     (case token of
        None \<Rightarrow> Inl ValueError
      | Some tok \<Rightarrow>
          if tok = [] then Inl ValueError
          else Inr \<lparr>bot_token = tok, channel_id = channel,
                    categories = [(tech, category_tech), (politics, category_politics)],
                    current_article = None, heap = initial_heap, trace = []\<rparr>)"

text \<open>
  The catalogue as a value: every category with its fallback article references
  replaced by the dicts they point to. This is what comparing \<^verbatim>\<open>self.categories\<close>
  with a deep copy taken at startup compares.
\<close>

definition catalogue ::
    "bot \<Rightarrow> (pystr \<times> category_cfg \<times> article list) list" where
  "catalogue s =
     map (\<lambda>(cid, c). (cid, c, map (\<lambda>a. heap s ! a) (fallback_articles c))) (categories s)"

section \<open>Article Resolver\<close>

text \<open>
  The dict built at lines 237 to 243 from the chosen entry. \<^verbatim>\<open>entry.title\<close> and
  \<^verbatim>\<open>entry.link\<close> raise when the field is missing (\<open>None\<close> here); the summary is
  truncated first.
\<close>

definition fresh_article :: "pystr \<Rightarrow> entry \<Rightarrow> article option" where
  "fresh_article category_id en =
     (let clean_text = truncate_summary (entry_text en) in
      case entry_title en of
        None \<Rightarrow> None
      | Some t \<Rightarrow>
          (case entry_link en of
             None \<Rightarrow> None
           | Some l \<Rightarrow>
               Some \<lparr>title = t, summary = clean_text, link = Some l,
                     category = Some category_id, is_fallback = Some False\<rparr>))"

text \<open>
  The loop of \<^verbatim>\<open>try_get_fresh_article\<close> over the feed URLs. Whatever raises inside the
  loop body is caught and the loop continues with the next URL. On success a new dict is
  allocated in the store and the draft slot points to it.
\<close>

fun try_feeds :: "env \<Rightarrow> pystr \<Rightarrow> pystr list \<Rightarrow> bot \<Rightarrow> bool \<times> bot" where
  "try_feeds e category_id [] s = (False, s)"
| "try_feeds e category_id (rss_url # rest) s =
     (let s1 = emit (FeedGet rss_url) s in
      case feed e (now s) rss_url of
        None \<Rightarrow> try_feeds e category_id rest s1
      | Some entries \<Rightarrow>
          if entries = [] then try_feeds e category_id rest s1
          else
            (case choice e (take 10 entries) s1 of
               (Inl err, s2) \<Rightarrow> try_feeds e category_id rest s2
             | (Inr en, s2) \<Rightarrow>
                 (case fresh_article category_id en of
                    None \<Rightarrow> try_feeds e category_id rest s2
                  | Some art \<Rightarrow>
                      (True, s2\<lparr>current_article := Some (length (heap s2)),
                                heap := heap s2 @ [art]\<rparr>))))"

definition try_get_fresh_article :: "env \<Rightarrow> pystr \<Rightarrow> bot \<Rightarrow> bool \<times> bot" where
  "try_get_fresh_article e category_id s =
     (case map_of (categories s) category_id of
        None \<Rightarrow> (False, s)
      | Some c \<Rightarrow> try_feeds e category_id (rss c) s)"

text \<open>
  \<^verbatim>\<open>use_fallback_article\<close>: the draft slot is set to the chosen element of the
  catalogue's list itself, not to a copy, and \<^verbatim>\<open>update\<close> then writes the two keys into
  that object.
\<close>

definition use_fallback_article :: "env \<Rightarrow> pystr \<Rightarrow> bot \<Rightarrow> (error + unit) \<times> bot" where
  "use_fallback_article e category_id s =
     (case map_of (categories s) category_id of
        None \<Rightarrow> (Inl KeyError, s)
      | Some c \<Rightarrow>
          (case choice e (fallback_articles c) s of
             (Inl err, s1) \<Rightarrow> (Inl err, s1)
           | (Inr a, s1) \<Rightarrow>
               (Inr (),
                s1\<lparr>current_article := Some a,
                   heap := (heap s1)[a := (heap s1 ! a)\<lparr>category := Some category_id,
                                                      is_fallback := Some True\<rparr>]\<rparr>)))"

text \<open>
  Article resolution, lines 163 to 167 of \<^verbatim>\<open>process_category\<close>: the fresh article if
  one can be had, the fallback article otherwise.
\<close>

definition resolve_article :: "env \<Rightarrow> pystr \<Rightarrow> bot \<Rightarrow> (error + unit) \<times> bot" where
  "resolve_article e category_id s =
     (case try_get_fresh_article e category_id s of
        (True, s1) \<Rightarrow> (Inr (), s1)
      | (False, s1) \<Rightarrow> use_fallback_article e category_id s1)"

section \<open>Image Resolver\<close>

definition http :: pystr where
  "http = ascii ''http''"

definition meta_image_properties :: "pystr option list" where
  "meta_image_properties = [Some (ascii ''og:image''), Some (ascii ''twitter:image'')]"

definition image_extensions :: "pystr list" where
  "image_extensions = [ascii ''.jpg'', ascii ''.jpeg'', ascii ''.png'']"

text \<open>
  The first loop of \<^verbatim>\<open>extract_image_from_article\<close>: the content of the first
  \<^verbatim>\<open>meta\<close> tag whose property is one of the two and whose content (the empty string
  when absent) starts with \<^verbatim>\<open>http\<close>.
\<close>

fun find_meta_image :: "(pystr option \<times> pystr option) list \<Rightarrow> pystr option" where
  "find_meta_image [] = None"
| "find_meta_image ((property, content) # rest) =
     (if property \<in> set meta_image_properties
         \<and> startswith (case content of None \<Rightarrow> [] | Some c \<Rightarrow> c) http
      then content
      else find_meta_image rest)"

text \<open>
  The second loop: \<^verbatim>\<open>any(ext in img['src'] for ext in ['.jpg', '.jpeg', '.png'])\<close>
  tests whether an extension occurs anywhere in the source.
\<close>

definition suitable_image :: "pystr \<Rightarrow> bool" where
  "suitable_image src = (startswith src http \<and> list_ex (contains src) image_extensions)"

fun find_inline_image :: "pystr list \<Rightarrow> pystr option" where
  "find_inline_image [] = None"
| "find_inline_image (src # rest) =
     (if suitable_image src then Some src else find_inline_image rest)"

text \<open>
  \<^verbatim>\<open>extract_image_from_article\<close>: \<open>None\<close> without a draft or without a (non-empty)
  link, \<open>None\<close> when the page cannot be fetched or parsed, otherwise the meta image, or
  else the inline image, or else \<open>None\<close> (the function ends without a return).
\<close>

definition extract_image_from_article :: "env \<Rightarrow> bot \<Rightarrow> pystr option \<times> bot" where
  "extract_image_from_article e s =
     (case current_article s of
        None \<Rightarrow> (None, s)
      | Some a \<Rightarrow>
          (case link (heap s ! a) of
             None \<Rightarrow> (None, s)
           | Some l \<Rightarrow>
               if l = [] then (None, s)
               else
                 (case page e (now s) l of
                    None \<Rightarrow> (None, emit (PageGet l) s)
                  | Some soup \<Rightarrow>
                      (case find_meta_image (metas soup) of
                         Some u \<Rightarrow> (Some u, emit (PageGet l) s)
                       | None \<Rightarrow> (find_inline_image (imgs soup), emit (PageGet l) s)))))"

definition unsplash :: pystr where
  "unsplash = ascii ''https://source.unsplash.com/800x600/?''"

text \<open>
  Steps 2 and 3 of \<^verbatim>\<open>get_image_with_fallback\<close>. An exception in step 2 (no keyword
  to choose from, the probe raising) is caught; step 3 is outside any \<^verbatim>\<open>try\<close>.
\<close>

definition stock_image :: "env \<Rightarrow> category_cfg \<Rightarrow> bot \<Rightarrow> pystr option \<times> bot" where
  "stock_image e c s =
     (case choice e (image_keywords c) s of
        (Inl err, s1) \<Rightarrow> (None, s1)
      | (Inr keyword, s1) \<Rightarrow>
          (if probe e (now s1) (unsplash @ keyword) = Some 200
           then (Some (unsplash @ keyword), emit (Head (unsplash @ keyword)) s1)
           else (None, emit (Head (unsplash @ keyword)) s1)))"

definition stock_or_fallback_image ::
    "env \<Rightarrow> category_cfg \<Rightarrow> bot \<Rightarrow> (error + pystr) \<times> bot" where
  "stock_or_fallback_image e c s =
     (case stock_image e c s of
        (Some url, s1) \<Rightarrow> (Inr url, s1)
      | (None, s1) \<Rightarrow> choice e (fallback_images c) s1)"

definition get_image_with_fallback :: "env \<Rightarrow> bot \<Rightarrow> (error + pystr) \<times> bot" where
  "get_image_with_fallback e s =
     (case current_article s of
        None \<Rightarrow>
          (case choice e (map snd (categories s)) s of
             (Inl err, s1) \<Rightarrow> (Inl err, s1)
           | (Inr c, s1) \<Rightarrow>
               (case fallback_images c of
                  [] \<Rightarrow> (Inl IndexError, s1)
                | url # rest \<Rightarrow> (Inr url, s1)))
      | Some a \<Rightarrow>
          (case category (heap s ! a) of
             None \<Rightarrow> (Inl KeyError, s)
           | Some category_id \<Rightarrow>
               (case map_of (categories s) category_id of
                  None \<Rightarrow> (Inl KeyError, s)
                | Some c \<Rightarrow>
                    if is_fallback (heap s ! a) = Some False
                    then
                      (case extract_image_from_article e s of
                         (Some img, s1) \<Rightarrow>
                           if img \<noteq> [] then (Inr img, s1)
                           else stock_or_fallback_image e c s1
                       | (None, s1) \<Rightarrow> stock_or_fallback_image e c s1)
                    else stock_or_fallback_image e c s)))"

section \<open>Delivery Layer\<close>

text \<open>
  \<^verbatim>\<open>send_with_retry(method, ..., max_retries)\<close>: the loop over
  \<^verbatim>\<open>range(max_retries)\<close>, by the number of attempts left. An attempt that returns ends
  the loop; one that raises is re-raised when it was the last, otherwise the loop sleeps
  and goes on. With no attempt at all the function falls off its end and returns None.
\<close>

fun retry_loop :: "env \<Rightarrow> request \<Rightarrow> nat \<Rightarrow> bot \<Rightarrow> (error + unit) \<times> bot" where
  "retry_loop e r 0 s = (Inr (), s)"
| "retry_loop e r (Suc left) s =
     (if deliver e (now s) r then (Inr (), emit (Send r True) s)
      else if left = 0 then (Inl TelegramError, emit (Send r False) s)
      else retry_loop e r left (emit (Send r False) s))"

text \<open>Every call in the program leaves \<^verbatim>\<open>max_retries\<close> at its default.\<close>

definition max_retries :: nat where
  "max_retries = 3"

definition send_with_retry :: "env \<Rightarrow> request \<Rightarrow> bot \<Rightarrow> (error + unit) \<times> bot" where
  "send_with_retry e r s = retry_loop e r max_retries s"

definition text_message :: "tg_method \<Rightarrow> pystr \<Rightarrow> markup option \<Rightarrow> bool \<Rightarrow> request" where
  "text_message m t rm md =
     \<lparr>req_method = m, req_chat_id = None, req_photo = None, req_text = t,
      req_markup = rm, req_markdown = md\<rparr>"

definition photo_message ::
    "tg_method \<Rightarrow> pystr option \<Rightarrow> pystr \<Rightarrow> pystr \<Rightarrow> markup option \<Rightarrow> request" where
  "photo_message m chat image_url caption rm =
     \<lparr>req_method = m, req_chat_id = chat, req_photo = Some image_url, req_text = caption,
      req_markup = rm, req_markdown = True\<rparr>"

text \<open>
  The two calls of \<^verbatim>\<open>send_news_message\<close>: a new photo message for an \<^verbatim>\<open>Update\<close>
  or an edit of the message's media for a callback query; and the caption as a text
  message, new or edited, with the same buttons.
\<close>

definition news_photo :: "source \<Rightarrow> pystr \<Rightarrow> pystr \<Rightarrow> markup option \<Rightarrow> request" where
  "news_photo update image_url caption rm =
     photo_message (if update = Update then reply_photo else edit_message_media)
       None image_url caption rm"

definition news_text :: "source \<Rightarrow> pystr \<Rightarrow> markup option \<Rightarrow> request" where
  "news_text update caption rm =
     text_message (if update = Update then reply_text else edit_message_text) caption rm True"

text \<open>
  \<^verbatim>\<open>send_news_message\<close>: the photo through \<^verbatim>\<open>send_with_retry\<close>; when that raises, the
  text through \<^verbatim>\<open>send_with_retry\<close> again, whose exception is not caught here.
\<close>

definition send_news_message ::
    "env \<Rightarrow> source \<Rightarrow> pystr \<Rightarrow> pystr \<Rightarrow> markup option \<Rightarrow> bot \<Rightarrow> (error + unit) \<times> bot" where
  "send_news_message e update image_url caption rm s =
     (case send_with_retry e (news_photo update image_url caption rm) s of
        (Inr u, s1) \<Rightarrow> (Inr (), s1)
      | (Inl err, s1) \<Rightarrow> send_with_retry e (news_text update caption rm) s1)"

section \<open>Conversation Controller\<close>

text \<open>A pushpin emoji, a space and an asterisk.\<close>

definition pin_star :: pystr where
  "pin_star =
     [128204, 32, 42]"

text \<open>The label of the publish button: a check mark and the Russian for Publish.\<close>

definition btn_publish :: pystr where
  "btn_publish =
     [9989, 32, 1054, 1087, 1091, 1073, 1083, 1080, 1082, 1086, 1074, 1072, 1090, 1100]"

text \<open>The label of the more button: an arrows emoji and the Russian for More news.\<close>

definition btn_more :: pystr where
  "btn_more =
     [128260, 32, 1045, 1097, 1077, 32, 1085, 1086, 1074, 1086, 1089, 1090, 1100]"

text \<open>The notice of the recovery path (in Russian): Technologies; the bot temporarily uses reserve news, try later.\<close>

definition notice_fallback :: pystr where
  "notice_fallback =
     [128204, 32, 42, 1058, 1077, 1093, 1085, 1086, 1083, 1086, 1075, 1080, 1080, 42,
      10, 10, 128295, 32, 1041, 1086, 1090, 32, 1074, 1088, 1077, 1084, 1077, 1085,
      1085, 1086, 32, 1080, 1089, 1087, 1086, 1083, 1100, 1079, 1091, 1077, 1090, 32,
      1088, 1077, 1079, 1077, 1088, 1074, 1085, 1099, 1077, 32, 1085, 1086, 1074, 1086,
      1089, 1090, 1080, 46, 32, 1055, 1086, 1087, 1088, 1086, 1073, 1091, 1081, 1090,
      1077, 32, 1087, 1086, 1079, 1078, 1077, 33]"

text \<open>The warning of a publish without a draft (in Russian): no data to publish.\<close>

definition warning_no_data :: pystr where
  "warning_no_data =
     [9888, 65039, 32, 1053, 1077, 1090, 32, 1076, 1072, 1085, 1085, 1099, 1093, 32,
      1076, 1083, 1103, 32, 1087, 1091, 1073, 1083, 1080, 1082, 1072, 1094, 1080, 1080]"

text \<open>The confirmation (in Russian): the news is published in the channel, and Category: .\<close>

definition published_prefix :: pystr where
  "published_prefix =
     [9989, 32, 42, 1053, 1086, 1074, 1086, 1089, 1090, 1100, 32, 1086, 1087, 1091,
      1073, 1083, 1080, 1082, 1086, 1074, 1072, 1085, 1072, 32, 1074, 32, 1082, 1072,
      1085, 1072, 1083, 1077, 33, 42, 10, 10, 1050, 1072, 1090, 1077, 1075, 1086, 1088,
      1080, 1103, 58, 32]"

text \<open>The error notice of a failed publish (in Russian): could not publish, try later.\<close>

definition notice_publish_failed :: pystr where
  "notice_publish_failed =
     [9888, 65039, 32, 1053, 1077, 32, 1091, 1076, 1072, 1083, 1086, 1089, 1100, 32,
      1086, 1087, 1091, 1073, 1083, 1080, 1082, 1086, 1074, 1072, 1090, 1100, 32, 1085,
      1086, 1074, 1086, 1089, 1090, 1100, 46, 32, 1055, 1086, 1087, 1088, 1086, 1073,
      1091, 1081, 1090, 1077, 32, 1087, 1086, 1079, 1078, 1077, 46]"

text \<open>The error notice of the callback handler (in Russian): an error occurred, try again.\<close>

definition notice_callback_failed :: pystr where
  "notice_callback_failed =
     [9888, 65039, 32, 1055, 1088, 1086, 1080, 1079, 1086, 1096, 1083, 1072, 32, 1086,
      1096, 1080, 1073, 1082, 1072, 46, 32, 1055, 1086, 1087, 1088, 1086, 1073, 1091,
      1081, 1090, 1077, 32, 1077, 1097, 1077, 32, 1088, 1072, 1079, 46]"

text \<open>The menu button for a random news item (in Russian).\<close>

definition menu_random :: pystr where
  "menu_random =
     [128240, 32, 1057, 1083, 1091, 1095, 1072, 1081, 1085, 1072, 1103, 32, 1085, 1086,
      1074, 1086, 1089, 1090, 1100]"

text \<open>The menu button for help (in Russian).\<close>

definition menu_help :: pystr where
  "menu_help =
     [8505, 65039, 32, 1055, 1086, 1084, 1086, 1097, 1100]"

text \<open>The answer to any other text (in Russian): use the menu buttons to navigate.\<close>

definition guidance :: pystr where
  "guidance =
     [1048, 1089, 1087, 1086, 1083, 1100, 1079, 1091, 1081, 1090, 1077, 32, 1082, 1085,
      1086, 1087, 1082, 1080, 32, 1084, 1077, 1085, 1102, 32, 1076, 1083, 1103, 32,
      1085, 1072, 1074, 1080, 1075, 1072, 1094, 1080, 1080]"

text \<open>The help text (in Russian).\<close>

definition help_text :: pystr where
  "help_text =
     [127384, 32, 42, 1044, 1086, 1089, 1090, 1091, 1087, 1085, 1099, 1077, 32, 1082,
      1086, 1084, 1072, 1085, 1076, 1099, 58, 42, 10, 10, 128240, 32, 1057, 1083, 1091,
      1095, 1072, 1081, 1085, 1072, 1103, 32, 1085, 1086, 1074, 1086, 1089, 1090, 1100,
      32, 45, 32, 1089, 1083, 1091, 1095, 1072, 1081, 1085, 1072, 1103, 32, 1085, 1086,
      1074, 1086, 1089, 1090, 1100, 32, 1080, 1079, 32, 1083, 1102, 1073, 1086, 1081,
      32, 1082, 1072, 1090, 1077, 1075, 1086, 1088, 1080, 1080, 10, 128187, 32, 1058,
      1077, 1093, 1085, 1086, 1083, 1086, 1075, 1080, 1080, 32, 45, 32, 1085, 1086,
      1074, 1086, 1089, 1090, 1080, 32, 73, 84, 32, 1080, 32, 1090, 1077, 1093, 1085,
      1086, 1083, 1086, 1075, 1080, 1081, 10, 127963, 32, 1055, 1086, 1083, 1080, 1090,
      1080, 1082, 1072, 32, 45, 32, 1087, 1086, 1083, 1080, 1090, 1080, 1095, 1077,
      1089, 1082, 1080, 1077, 32, 1085, 1086, 1074, 1086, 1089, 1090, 1080, 10, 10,
      1041, 1086, 1090, 32, 1072, 1074, 1090, 1086, 1084, 1072, 1090, 1080, 1095, 1077,
      1089, 1082, 1080, 32, 1087, 1086, 1076, 1073, 1080, 1088, 1072, 1077, 1090, 32,
      1080, 1079, 1086, 1073, 1088, 1072, 1078, 1077, 1085, 1080, 1103, 32, 1082, 32,
      1085, 1086, 1074, 1086, 1089, 1090, 1103, 1084]"

text \<open>The welcome text (in Russian).\<close>

definition welcome_text :: pystr where
  "welcome_text =
     [128225, 32, 42, 1044, 1086, 1073, 1088, 1086, 32, 1087, 1086, 1078, 1072, 1083,
      1086, 1074, 1072, 1090, 1100, 32, 1074, 32, 82, 101, 108, 105, 97, 98, 108, 101,
      32, 78, 101, 119, 115, 32, 66, 111, 116, 33, 42, 10, 10, 1071, 32, 1074, 1089,
      1077, 1075, 1076, 1072, 32, 1085, 1072, 1081, 1076, 1091, 32, 1076, 1083, 1103,
      32, 1074, 1072, 1089, 32, 1089, 1074, 1077, 1078, 1080, 1077, 32, 1085, 1086,
      1074, 1086, 1089, 1090, 1080, 33]"

text \<open>The f-string of lines 174 to 178 and 380 to 384.\<close>

definition post_text :: "category_cfg \<Rightarrow> article \<Rightarrow> pystr" where
  "post_text c art =
     emoji c @ ascii '' *'' @ name c @ [42, 10, 10]
     @ pin_star @ title art @ [42, 10, 10]
     @ summary art"

definition keyboard :: "pystr \<Rightarrow> markup" where
  "keyboard category_id =
     InlineKeyboard
       [[(btn_publish, ascii ''publish''), (btn_more, ascii ''category_'' @ category_id)],
        [(name_tech, ascii ''category_tech''), (name_politics, ascii ''category_politics'')]]"

text \<open>
  The \<^verbatim>\<open>try\<close> block of \<^verbatim>\<open>process_category\<close>. Reading the draft when the slot is
  empty is a TypeError in Python; it cannot happen here, since both resolvers fill the
  slot, and the model answers KeyError.
\<close>

definition process_category_try ::
    "env \<Rightarrow> source \<Rightarrow> pystr \<Rightarrow> bot \<Rightarrow> (error + unit) \<times> bot" where
  "process_category_try e update category_id s =
     (case resolve_article e category_id s of
        (Inl err, s1) \<Rightarrow> (Inl err, s1)
      | (Inr u, s1) \<Rightarrow>
          (case get_image_with_fallback e s1 of
             (Inl err, s2) \<Rightarrow> (Inl err, s2)
           | (Inr image_url, s2) \<Rightarrow>
               (case map_of (categories s2) category_id of
                  None \<Rightarrow> (Inl KeyError, s2)
                | Some c \<Rightarrow>
                    (case current_article s2 of
                       None \<Rightarrow> (Inl KeyError, s2)
                     | Some a \<Rightarrow>
                         send_news_message e update image_url
                           (post_text c (heap s2 ! a))
                           (Some (keyboard category_id)) s2))))"

text \<open>The notice of the recovery path, a new text message in Markdown.\<close>

definition recovery_notice :: request where
  "recovery_notice = text_message reply_text notice_fallback None True"

text \<open>
  \<^verbatim>\<open>process_category\<close>: when the \<^verbatim>\<open>try\<close> block raises, the handler sends the notice,
  takes a fallback article of \<^verbatim>\<open>tech\<close> and calls \<^verbatim>\<open>process_category\<close> again with
  \<^verbatim>\<open>tech\<close>. The first argument bounds the depth of these calls: \<open>None\<close> is a run
  that has not returned within the bound. An exception raised inside the handler
  leaves the function.
\<close>

fun process_category ::
    "nat \<Rightarrow> env \<Rightarrow> source \<Rightarrow> pystr \<Rightarrow> bot \<Rightarrow> ((error + unit) \<times> bot) option" where
  "process_category 0 e update category_id s = None"
| "process_category (Suc depth) e update category_id s =
     (case process_category_try e update category_id s of
        (Inr u, s1) \<Rightarrow> Some (Inr (), s1)
      | (Inl err, s1) \<Rightarrow>
          (case send_with_retry e recovery_notice s1 of
             (Inl err2, s2) \<Rightarrow> Some (Inl err2, s2)
           | (Inr u, s2) \<Rightarrow>
               (case use_fallback_article e tech s2 of
                  (Inl err3, s3) \<Rightarrow> Some (Inl err3, s3)
                | (Inr u, s3) \<Rightarrow> process_category depth e update tech s3)))"

text \<open>The Telegram calls of \<^verbatim>\<open>publish_article\<close>.\<close>

definition channel_photo :: "pystr option \<Rightarrow> pystr \<Rightarrow> pystr \<Rightarrow> request" where
  "channel_photo chat image_url caption = photo_message send_photo chat image_url caption None"

definition confirmation :: "category_cfg \<Rightarrow> request" where
  "confirmation c = text_message edit_message_text (published_prefix @ name c) None True"

definition warning :: request where
  "warning = text_message edit_message_text warning_no_data None False"

definition failure_notice :: request where
  "failure_notice = text_message edit_message_text notice_publish_failed None False"

text \<open>
  The \<^verbatim>\<open>try\<close> block of \<^verbatim>\<open>publish_article\<close>, for a draft at address \<open>a\<close>: the slot
  is cleared after the channel delivery and after the confirmation to the user.
\<close>

definition publish_try :: "env \<Rightarrow> ref \<Rightarrow> bot \<Rightarrow> (error + unit) \<times> bot" where
  "publish_try e a s =
     (case category (heap s ! a) of
        None \<Rightarrow> (Inl KeyError, s)
      | Some category_id \<Rightarrow>
          (case map_of (categories s) category_id of
             None \<Rightarrow> (Inl KeyError, s)
           | Some c \<Rightarrow>
               (case get_image_with_fallback e s of
                  (Inl err, s1) \<Rightarrow> (Inl err, s1)
                | (Inr image_url, s1) \<Rightarrow>
                    (case send_with_retry e
                            (channel_photo (channel_id s1) image_url
                               (post_text c (heap s1 ! a))) s1 of
                       (Inl err, s2) \<Rightarrow> (Inl err, s2)
                     | (Inr u, s2) \<Rightarrow>
                         (case send_with_retry e (confirmation c) s2 of
                            (Inl err, s3) \<Rightarrow> (Inl err, s3)
                          | (Inr u, s3) \<Rightarrow> (Inr (), s3\<lparr>current_article := None\<rparr>))))))"

definition publish_article :: "env \<Rightarrow> bot \<Rightarrow> (error + unit) \<times> bot" where
  "publish_article e s =
     (case current_article s of
        None \<Rightarrow> send_with_retry e warning s
      | Some a \<Rightarrow>
          (case publish_try e a s of
             (Inr u, s1) \<Rightarrow> (Inr (), s1)
           | (Inl err, s1) \<Rightarrow> send_with_retry e failure_notice s1))"

text \<open>
  \<^verbatim>\<open>start\<close> and \<^verbatim>\<open>help_command\<close>. The two category buttons of the menu carry the
  display names of the categories.
\<close>

definition start :: "env \<Rightarrow> bot \<Rightarrow> (error + unit) \<times> bot" where
  "start e s =
     send_with_retry e
       (text_message reply_text welcome_text
          (Some (ReplyKeyboard [[menu_random], [name_tech, name_politics], [menu_help]]))
          True) s"

definition help_command :: "env \<Rightarrow> bot \<Rightarrow> (error + unit) \<times> bot" where
  "help_command e s = send_with_retry e (text_message reply_text help_text None True) s"

definition random_news ::
    "nat \<Rightarrow> env \<Rightarrow> source \<Rightarrow> bot \<Rightarrow> ((error + unit) \<times> bot) option" where
  "random_news depth e update s =
     (case choice e (map fst (categories s)) s of
        (Inl err, s1) \<Rightarrow> Some (Inl err, s1)
      | (Inr category_id, s1) \<Rightarrow> process_category depth e update category_id s1)"

definition handle_message ::
    "nat \<Rightarrow> env \<Rightarrow> pystr \<Rightarrow> bot \<Rightarrow> ((error + unit) \<times> bot) option" where
  "handle_message depth e txt s =
     (if txt = menu_random then random_news depth e Update s
      else if txt = name_tech then process_category depth e Update tech s
      else if txt = name_politics then process_category depth e Update politics s
      else if txt = menu_help then Some (help_command e s)
      else Some (send_with_retry e (text_message reply_text guidance None False) s))"

text \<open>\<^verbatim>\<open>s.split(sep)\<close> for a separator of one character.\<close>

fun split :: "nat \<Rightarrow> pystr \<Rightarrow> pystr list" where
  "split sep [] = [[]]"
| "split sep (c # cs) =
     (if c = sep then [] # split sep cs
      else (case split sep cs of
              [] \<Rightarrow> [[c]]
            | w # ws \<Rightarrow> (c # w) # ws))"

text \<open>
  \<^verbatim>\<open>handle_callback\<close>: the acknowledgement \<^verbatim>\<open>query.answer()\<close> is one call outside the
  \<^verbatim>\<open>try\<close>; the branch taken inside the \<^verbatim>\<open>try\<close>; the notice when the branch raises.
\<close>

definition callback_try ::
    "nat \<Rightarrow> env \<Rightarrow> pystr \<Rightarrow> bot \<Rightarrow> ((error + unit) \<times> bot) option" where
  "callback_try depth e data s =
     (if startswith data (ascii ''category_'') then
        (case split 95 data of
           w0 # category_id # ws \<Rightarrow> process_category depth e CallbackQuery category_id s
         | _ \<Rightarrow> Some (Inl IndexError, s))
      else if data = ascii ''publish'' then Some (publish_article e s)
      else Some (Inr (), s))"

definition handle_callback ::
    "nat \<Rightarrow> env \<Rightarrow> pystr \<Rightarrow> bot \<Rightarrow> ((error + unit) \<times> bot) option" where
  "handle_callback depth e data s =
     (if \<not> deliver e (now s) (text_message answer [] None False)
      then Some (Inl TelegramError, emit (Send (text_message answer [] None False) False) s)
      else
        (case callback_try depth e data
                (emit (Send (text_message answer [] None False) True) s) of
           None \<Rightarrow> None
         | Some (Inr u, s1) \<Rightarrow> Some (Inr (), s1)
         | Some (Inl err, s1) \<Rightarrow>
             Some (send_with_retry e
                     (text_message edit_message_text notice_callback_failed None False) s1)))"

text \<open>
  The handlers as \<^verbatim>\<open>run\<close> registers them. An exception that leaves a handler is
  logged by the dispatcher of the library and the bot goes on with the state as it is.
\<close>

datatype interaction =
    CmdStart | CmdHelp | CmdRandom | Message pystr | Callback pystr

definition dispatch ::
    "nat \<Rightarrow> env \<Rightarrow> interaction \<Rightarrow> bot \<Rightarrow> ((error + unit) \<times> bot) option" where
  "dispatch depth e i s =
     (case i of
        CmdStart \<Rightarrow> Some (start e s)
      | CmdHelp \<Rightarrow> Some (help_command e s)
      | CmdRandom \<Rightarrow> random_news depth e Update s
      | Message txt \<Rightarrow> handle_message depth e txt s
      | Callback data \<Rightarrow> handle_callback depth e data s)"

section \<open>Sample inputs\<close>

text \<open>Two feed entries, one with a clean text of 251 characters and one with a short text.\<close>

definition long_entry :: entry where
  "long_entry =
     \<lparr>entry_title = Some (ascii ''T''), entry_link = Some (ascii ''http://x''),
      entry_text = replicate 251 97\<rparr>"

definition short_entry :: entry where
  "short_entry =
     \<lparr>entry_title = Some (ascii ''T''), entry_link = Some (ascii ''http://x''),
      entry_text = ascii ''short''\<rparr>"

section \<open>Invariant and frame\<close>

text \<open>
  What every operation keeps and the constructor establishes. There is a category;
  each category has a fallback image, none of them empty, and a fallback article; each
  fallback article reference points into the store, to a dict with a non-empty title and
  summary; a draft in the slot points into the store, to a dict whose category is one of
  the catalogue.
\<close>

definition wf_category :: "bot \<Rightarrow> category_cfg \<Rightarrow> bool" where
  "wf_category s c =
     (fallback_images c \<noteq> [] \<and> [] \<notin> set (fallback_images c)
      \<and> fallback_articles c \<noteq> []
      \<and> (\<forall>a \<in> set (fallback_articles c).
            a < length (heap s) \<and> title (heap s ! a) \<noteq> [] \<and> summary (heap s ! a) \<noteq> []))"

definition wf_draft :: "bot \<Rightarrow> bool" where
  "wf_draft s =
     (case current_article s of
        None \<Rightarrow> True
      | Some a \<Rightarrow>
          a < length (heap s)
          \<and> (case category (heap s ! a) of
                None \<Rightarrow> False
              | Some category_id \<Rightarrow> map_of (categories s) category_id \<noteq> None))"

definition wf_bot :: "bot \<Rightarrow> bool" where
  "wf_bot s =
     (categories s \<noteq> [] \<and> (\<forall>c \<in> set (map snd (categories s)). wf_category s c)
      \<and> wf_draft s)"

text \<open>\<open>frame s s'\<close>: \<open>s'\<close> is \<open>s\<close> with more events in the trace and nothing else changed.\<close>

definition frame :: "bot \<Rightarrow> bot \<Rightarrow> bool" where
  "frame s s' =
     (s' = s\<lparr>trace := trace s'\<rparr> \<and> take (length (trace s)) (trace s') = trace s)"

text \<open>The bot as constructed with a token and a channel.\<close>

definition bot0 :: bot where
  "bot0 =
     \<lparr>bot_token = ascii ''token'', channel_id = Some (ascii ''@channel''),
      categories = [(tech, category_tech), (politics, category_politics)],
      current_article = None, heap = initial_heap, trace = []\<rparr>"

text \<open>
  An outside world in which nothing can be fetched (every feed, page and probe raises),
  the random generator always draws 1, and the transport accepts every call.
\<close>

definition env_down :: env where
  "env_down =
     \<lparr>rng = (\<lambda>t. 1), feed = (\<lambda>t url. None), page = (\<lambda>t url. None),
      probe = (\<lambda>t url. None), deliver = (\<lambda>t r. True)\<rparr>"

text \<open>
  An outside world in which every feed has the one short entry, no article page can be
  fetched, the stock image probe answers 302, the random generator always draws 1, and
  the transport accepts every call; and the bot after a fresh article was taken there.
\<close>

definition env_fresh :: env where
  "env_fresh =
     \<lparr>rng = (\<lambda>t. 1), feed = (\<lambda>t url. Some [short_entry]), page = (\<lambda>t url. None),
      probe = (\<lambda>t url. Some 302), deliver = (\<lambda>t r. True)\<rparr>"

definition bot_fresh :: bot where
  "bot_fresh = snd (try_get_fresh_article env_fresh tech bot0)"

text \<open>
  An article page without meta tags and with two inline images, the first with a query
  string after its extension; and the outside world of \<open>env_fresh\<close> serving this page.
\<close>

definition page_query :: html where
  "page_query =
     \<lparr>metas = [], imgs = [ascii ''https://x/a.jpg?w=1'', ascii ''https://x/b.png'']\<rparr>"

definition env_query :: env where
  "env_query = env_fresh\<lparr>page := (\<lambda>t url. Some page_query)\<rparr>"

text \<open>
  The selection the specification describes: the first source that starts with
  \<^verbatim>\<open>http\<close> and ends in one of the extensions.
\<close>

definition spec_inline_image :: "pystr list \<Rightarrow> pystr option" where
  "spec_inline_image srcs =
     List.find (\<lambda>src. startswith src http \<and> list_ex (endswith src) image_extensions) srcs"

text \<open>An outside world like \<open>env_down\<close> whose transport rejects every call.\<close>

definition env_reject :: env where
  "env_reject = env_down\<lparr>deliver := (\<lambda>t r. False)\<rparr>"

text \<open>The number of attempts of a Telegram call in a trace, whatever their outcome.\<close>

definition attempts :: "request \<Rightarrow> event list \<Rightarrow> nat" where
  "attempts r tr = length (filter (\<lambda>ev. ev = Send r True \<or> ev = Send r False) tr)"

text \<open>
  An outside world like \<open>env_fresh\<close> whose transport accepts the posts to the channel
  and the error notice of a failed publish, and rejects every other call, the
  confirmation of a publish among them; and the post of the fresh draft of \<open>bot_fresh\<close>
  to the channel, with the image that world resolves.
\<close>

definition env_confirm_lost :: env where
  "env_confirm_lost =
     env_fresh\<lparr>deliver := (\<lambda>t r. req_method r = send_photo \<or> r = failure_notice)\<rparr>"

definition fresh_post :: request where
  "fresh_post =
     channel_photo (Some (ascii ''@channel''))
       (ascii ''https://images.unsplash.com/photo-1558494949-ef010cbdcc31'')
       (post_text category_tech (heap bot_fresh ! 4))"

text \<open>
  An outside world like \<open>env_down\<close> whose transport accepts a new text message
  without buttons and rejects every other call: every photo, every edit and every
  message that carries an inline keyboard.
\<close>

definition env_loop :: env where
  "env_loop = env_down\<lparr>deliver := (\<lambda>t r. req_method r = reply_text \<and> req_markup r = None)\<rparr>"

text \<open>
  A sequence of interactions, handled one after the other. The exception of a handler
  is dropped, as the dispatcher of the library does after logging it; \<open>None\<close> is a
  sequence with a handler that has not returned within the depth bound.
\<close>

fun interactions :: "nat \<Rightarrow> env \<Rightarrow> interaction list \<Rightarrow> bot \<Rightarrow> bot option" where
  "interactions depth e [] s = Some s"
| "interactions depth e (i # rest) s =
     (case dispatch depth e i s of
        None \<Rightarrow> None
      | Some (r, s1) \<Rightarrow> interactions depth e rest s1)"

section \<open>Summary truncation\<close>

lemma ellipsis_dots: "ellipsis = [46, 46, 46]"
  by (simp add: ellipsis_def ascii_def)

lemma fresh_article_summary:
  "fresh_article category_id en = Some art \<Longrightarrow> summary art = truncate_summary (entry_text en)"
  by (auto simp: fresh_article_def Let_def split: option.splits)

text \<open>
  Claim C2. The summary stored in a fresh draft: when the cleaned text of the entry has
  more than 250 characters, the summary has exactly 253 characters, its last three are
  the dots of the ellipsis and its first 250 are the first 250 of the text; a text of at
  most 250 characters is stored unchanged.
\<close>

theorem summary_truncation:
  "fresh_article category_id en = Some art \<Longrightarrow>
     (250 < length (entry_text en) \<longrightarrow>
        length (summary art) = 253
        \<and> drop 250 (summary art) = [46, 46, 46]
        \<and> take 250 (summary art) = take 250 (entry_text en))
     \<and> (length (entry_text en) \<le> 250 \<longrightarrow> summary art = entry_text en)"
proof -
  assume "fresh_article category_id en = Some art"
  then have s: "summary art = truncate_summary (entry_text en)"
    by (rule fresh_article_summary)
  show ?thesis
    unfolding s truncate_summary_def by (simp add: ellipsis_dots)
qed

theorem summary_truncation_witness:
  "(\<exists>art. fresh_article tech long_entry = Some art
      \<and> 250 < length (entry_text long_entry)
      \<and> length (summary art) = 253
      \<and> drop 250 (summary art) = [46, 46, 46]
      \<and> take 250 (summary art) = replicate 250 97)
   \<and> (\<exists>art. fresh_article tech short_entry = Some art
      \<and> length (entry_text short_entry) \<le> 250
      \<and> summary art = ascii ''short'')"
proof -
  obtain a1 where a1: "fresh_article tech long_entry = Some a1"
    by (simp add: fresh_article_def long_entry_def)
  obtain a2 where a2: "fresh_article tech short_entry = Some a2"
    by (simp add: fresh_article_def short_entry_def)
  have l1: "250 < length (entry_text long_entry)"
    by (simp add: long_entry_def)
  have l2: "length (entry_text short_entry) \<le> 250"
    by (simp add: short_entry_def ascii_def)
  from summary_truncation [OF a1] l1
  have "length (summary a1) = 253 \<and> drop 250 (summary a1) = [46, 46, 46]
        \<and> take 250 (summary a1) = take 250 (entry_text long_entry)"
    by blast
  moreover have "take 250 (entry_text long_entry) = replicate 250 97"
    by (simp add: long_entry_def)
  moreover from summary_truncation [OF a2] l2
  have "summary a2 = entry_text short_entry"
    by blast
  moreover have "entry_text short_entry = ascii ''short''"
    by (simp add: short_entry_def)
  ultimately show ?thesis
    using a1 a2 l1 l2 by simp
qed

section \<open>The constructed bot\<close>

lemma new_bot_bot0: "new_bot (Some (ascii ''token'')) (Some (ascii ''@channel'')) = Inr bot0"
  by (simp add: new_bot_def bot0_def ascii_def)

lemma new_bot_no_token: "new_bot None channel = Inl ValueError"
  by (simp add: new_bot_def)

lemma tech_neq_politics: "tech \<noteq> politics"
  by (simp add: tech_def politics_def ascii_def)

lemma map_of_bot0_tech: "map_of (categories bot0) tech = Some category_tech"
  by (simp add: bot0_def)

lemma map_of_bot0_politics: "map_of (categories bot0) politics = Some category_politics"
  using tech_neq_politics by (simp add: bot0_def)

lemma wf_category_tech: "wf_category bot0 category_tech"
  by (simp add: wf_category_def category_tech_def bot0_def initial_heap_def fallback_record_def
      ascii_def title_tech_1_def title_tech_2_def summary_tech_1_def summary_tech_2_def)

lemma wf_category_politics: "wf_category bot0 category_politics"
  by (simp add: wf_category_def category_politics_def bot0_def initial_heap_def
      fallback_record_def ascii_def title_politics_1_def title_politics_2_def
      summary_politics_1_def summary_politics_2_def)

lemma wf_bot0: "wf_bot bot0"
  using wf_category_tech wf_category_politics
  by (simp add: wf_bot_def wf_draft_def) (simp add: bot0_def)

section \<open>Frame\<close>

lemma frame_refl: "frame s s"
  by (simp add: frame_def)

lemma frame_trans: "frame s s1 \<Longrightarrow> frame s1 s2 \<Longrightarrow> frame s s2"
  unfolding frame_def
proof (intro conjI, goal_cases)
  case 1
  then have "s2 = (s\<lparr>trace := trace s1\<rparr>)\<lparr>trace := trace s2\<rparr>" by metis
  then show ?case by simp
next
  case 2
  then have a: "take (length (trace s)) (trace s1) = trace s"
    and b: "take (length (trace s1)) (trace s2) = trace s1" by auto
  have "length (trace s) \<le> length (trace s1)"
    using a by (metis length_take min.cobounded2 min.commute)
  then have "take (length (trace s)) (trace s2) = take (length (trace s)) (take (length (trace s1)) (trace s2))"
    by (simp add: min_def)
  then show ?case using a b by simp
qed

lemma frame_emit: "frame s (emit ev s)"
  by (simp add: frame_def emit_def)

lemma frame_fields:
  "frame s s' \<Longrightarrow> heap s' = heap s \<and> categories s' = categories s
     \<and> current_article s' = current_article s \<and> channel_id s' = channel_id s
     \<and> bot_token s' = bot_token s"
  unfolding frame_def
  by (metis bot.select_convs(1,2,3,4,5) bot.surjective bot.update_convs(6))

lemma frame_now: "frame s s' \<Longrightarrow> now s \<le> now s'"
  unfolding frame_def now_def
  by (metis length_take min.cobounded2 min.commute)

lemma frame_wf:
  assumes "frame s s'" and "wf_bot s"
  shows "wf_bot s'"
proof -
  from frame_fields [OF assms(1)]
  have h: "heap s' = heap s" and c: "categories s' = categories s"
    and d: "current_article s' = current_article s"
    by simp_all
  show ?thesis
    using assms(2) unfolding wf_bot_def wf_draft_def wf_category_def h c d .
qed

lemma frame_choice: "choice e seq s = (r, s') \<Longrightarrow> frame s s'"
  by (auto simp: choice_def frame_emit frame_refl split: if_splits)

lemma choice_nonempty:
  "seq \<noteq> [] \<Longrightarrow>
     choice e seq s = (Inr (seq ! (rng e (now s) mod length seq)), emit (Draw (rng e (now s))) s)"
  by (simp add: choice_def)

lemma choice_member: "choice e seq s = (Inr x, s') \<Longrightarrow> x \<in> set seq"
  by (auto simp: choice_def split: if_splits)

lemma now_emit: "now (emit ev s) = Suc (now s)"
  by (simp add: now_def emit_def)

section \<open>Article Resolver\<close>

lemma fresh_article_fields:
  "fresh_article category_id en = Some art \<Longrightarrow>
     category art = Some category_id \<and> is_fallback art = Some False \<and> link art = entry_link en
     \<and> entry_title en = Some (title art)"
  by (auto simp: fresh_article_def Let_def split: option.splits)

text \<open>
  What the loop over the feeds does to the state: nothing but events when it fails; on
  success, events and then one new dict in the store, built from an entry, with the
  draft slot pointing to it.
\<close>

lemma try_feeds_cases:
  "try_feeds e category_id urls s = (ok, s') \<Longrightarrow>
     (\<not> ok \<and> frame s s')
     \<or> (ok \<and> (\<exists>s2 en art. frame s s2 \<and> fresh_article category_id en = Some art
            \<and> s' = s2\<lparr>current_article := Some (length (heap s)), heap := heap s @ [art]\<rparr>))"
proof (induction urls arbitrary: s)
  case Nil
  then show ?case by (auto simp: frame_refl)
next
  case (Cons u urls)
  let ?s1 = "emit (FeedGet u) s"
  have f1: "frame s ?s1" by (rule frame_emit)
  have step: ?case if rest: "try_feeds e category_id urls s1 = (ok, s')" and fr: "frame s s1" for s1
  proof -
    from Cons.IH [OF rest] show ?thesis
    proof
      assume "\<not> ok \<and> frame s1 s'"
      then show ?thesis using fr frame_trans by blast
    next
      assume "ok \<and> (\<exists>s2 en art. frame s1 s2 \<and> fresh_article category_id en = Some art
            \<and> s' = s2\<lparr>current_article := Some (length (heap s1)), heap := heap s1 @ [art]\<rparr>)"
      then obtain s2 en art where ok and "frame s1 s2" and "fresh_article category_id en = Some art"
        and "s' = s2\<lparr>current_article := Some (length (heap s1)), heap := heap s1 @ [art]\<rparr>"
        by blast
      moreover have "heap s1 = heap s" using frame_fields [OF fr] by simp
      moreover have "frame s s2" using fr \<open>frame s1 s2\<close> by (rule frame_trans)
      ultimately show ?thesis by auto
    qed
  qed
  show ?case
  proof (cases "feed e (now s) u")
    case None
    with Cons.prems have "try_feeds e category_id urls ?s1 = (ok, s')" by simp
    then show ?thesis using f1 by (rule step)
  next
    case (Some entries)
    show ?thesis
    proof (cases "entries = []")
      case True
      with Some Cons.prems have "try_feeds e category_id urls ?s1 = (ok, s')" by simp
      then show ?thesis using f1 by (rule step)
    next
      case False
      then have ne: "take 10 entries \<noteq> []" by (cases entries) auto
      let ?en = "take 10 entries ! (rng e (now ?s1) mod length (take 10 entries))"
      let ?s2 = "emit (Draw (rng e (now ?s1))) ?s1"
      have ch: "choice e (take 10 entries) ?s1 = (Inr ?en, ?s2)"
        using ne by (rule choice_nonempty)
      have f2: "frame s ?s2" using f1 frame_emit by (rule frame_trans)
      show ?thesis
      proof (cases "fresh_article category_id ?en")
        case None
        with Some False ch Cons.prems have "try_feeds e category_id urls ?s2 = (ok, s')"
          by (simp add: Let_def)
        then show ?thesis using f2 by (rule step)
      next
        case (Some art)
        with \<open>feed e (now s) u = Some entries\<close> False ch Cons.prems
        have "ok" and "s' = ?s2\<lparr>current_article := Some (length (heap ?s2)), heap := heap ?s2 @ [art]\<rparr>"
          by (simp_all add: Let_def)
        moreover have "heap ?s2 = heap s" by (simp add: emit_def)
        ultimately show ?thesis using f2 Some by auto
      qed
    qed
  qed
qed

lemma try_get_fresh_article_cases:
  "try_get_fresh_article e category_id s = (ok, s') \<Longrightarrow>
     (\<not> ok \<and> frame s s')
     \<or> (ok \<and> map_of (categories s) category_id \<noteq> None
          \<and> (\<exists>s2 en art. frame s s2 \<and> fresh_article category_id en = Some art
            \<and> s' = s2\<lparr>current_article := Some (length (heap s)), heap := heap s @ [art]\<rparr>))"
  unfolding try_get_fresh_article_def
  by (cases "map_of (categories s) category_id") (auto simp: frame_refl dest: try_feeds_cases)

text \<open>A new dict at the end of the store keeps the invariant.\<close>

lemma wf_bot_alloc:
  assumes "wf_bot s" and "category art = Some category_id"
    and "map_of (categories s) category_id \<noteq> None"
  shows "wf_bot (s\<lparr>current_article := Some (length (heap s)), heap := heap s @ [art]\<rparr>)"
proof -
  let ?s = "s\<lparr>current_article := Some (length (heap s)), heap := heap s @ [art]\<rparr>"
  have "wf_category ?s c" if "wf_category s c" for c
    using that by (auto simp: wf_category_def nth_append)
  moreover have "wf_draft ?s"
    using assms(2,3) by (simp add: wf_draft_def)
  ultimately show ?thesis
    using assms(1) by (simp add: wf_bot_def)
qed

lemma try_get_fresh_article_wf:
  assumes "try_get_fresh_article e category_id s = (ok, s')" and "wf_bot s"
  shows "wf_bot s'"
proof -
  from try_get_fresh_article_cases [OF assms(1)] show ?thesis
  proof
    assume "\<not> ok \<and> frame s s'"
    then show ?thesis using assms(2) frame_wf by blast
  next
    assume "ok \<and> map_of (categories s) category_id \<noteq> None
          \<and> (\<exists>s2 en art. frame s s2 \<and> fresh_article category_id en = Some art
            \<and> s' = s2\<lparr>current_article := Some (length (heap s)), heap := heap s @ [art]\<rparr>)"
    then obtain s2 en art where m: "map_of (categories s) category_id \<noteq> None"
      and fr: "frame s s2" and fa: "fresh_article category_id en = Some art"
      and s': "s' = s2\<lparr>current_article := Some (length (heap s)), heap := heap s @ [art]\<rparr>"
      by blast
    have w2: "wf_bot s2" using fr assms(2) by (rule frame_wf)
    have h: "heap s2 = heap s" and c: "categories s2 = categories s"
      using frame_fields [OF fr] by simp_all
    have "wf_bot (s2\<lparr>current_article := Some (length (heap s2)), heap := heap s2 @ [art]\<rparr>)"
      using w2 fresh_article_fields [OF fa] m c by (intro wf_bot_alloc [where category_id = category_id]) simp_all
    then show ?thesis using s' h by simp
  qed
qed

lemma try_feeds_all_fail:
  "(\<forall>u \<in> set urls. \<forall>t. feed e t u = None \<or> feed e t u = Some []) \<Longrightarrow>
     try_feeds e category_id urls s = (False, s\<lparr>trace := trace s @ map FeedGet urls\<rparr>)"
proof (induction urls arbitrary: s)
  case Nil
  then show ?case by simp
next
  case (Cons u urls)
  then have "feed e (now s) u = None \<or> feed e (now s) u = Some []" by simp
  then have "try_feeds e category_id (u # urls) s = try_feeds e category_id urls (emit (FeedGet u) s)"
    by auto
  also have "\<dots> = (False, (emit (FeedGet u) s)\<lparr>trace := trace (emit (FeedGet u) s) @ map FeedGet urls\<rparr>)"
    using Cons.prems by (intro Cons.IH) simp
  finally show ?case by (simp add: emit_def)
qed

text \<open>Writing the two keys into a dict of the store keeps the invariant.\<close>

lemma wf_bot_mark:
  assumes "wf_bot s" and "a < length (heap s)"
    and "map_of (categories s) category_id \<noteq> None"
  shows "wf_bot (s\<lparr>current_article := Some a,
                   heap := (heap s)[a := (heap s ! a)\<lparr>category := Some category_id,
                                                     is_fallback := Some True\<rparr>]\<rparr>)"
proof -
  let ?s = "s\<lparr>current_article := Some a,
               heap := (heap s)[a := (heap s ! a)\<lparr>category := Some category_id,
                                                 is_fallback := Some True\<rparr>]\<rparr>"
  have "wf_category ?s c" if "wf_category s c" for c
    using that assms(2) by (auto simp: wf_category_def nth_list_update)
  moreover have "wf_draft ?s"
    using assms(2,3) by (simp add: wf_draft_def)
  ultimately show ?thesis
    using assms(1) by (simp add: wf_bot_def)
qed

lemma wf_bot_category:
  "wf_bot s \<Longrightarrow> map_of (categories s) category_id = Some c \<Longrightarrow> wf_category s c"
  by (auto simp: wf_bot_def dest!: map_of_SomeD)

lemma use_fallback_article_defined:
  assumes "wf_bot s" and "map_of (categories s) category_id = Some c"
  shows "use_fallback_article e category_id s =
           (Inr (),
            (emit (Draw (rng e (now s))) s)
              \<lparr>current_article :=
                 Some (fallback_articles c ! (rng e (now s) mod length (fallback_articles c))),
               heap := (heap s)
                 [fallback_articles c ! (rng e (now s) mod length (fallback_articles c)) :=
                    (heap s ! (fallback_articles c ! (rng e (now s) mod length (fallback_articles c))))
                      \<lparr>category := Some category_id, is_fallback := Some True\<rparr>]\<rparr>)"
proof -
  have "fallback_articles c \<noteq> []"
    using wf_bot_category [OF assms] by (simp add: wf_category_def)
  then show ?thesis
    using assms(2) by (simp add: use_fallback_article_def choice_nonempty emit_def)
qed

lemma use_fallback_article_wf:
  assumes "wf_bot s" and "use_fallback_article e category_id s = (r, s')"
  shows "wf_bot s'"
proof (cases "map_of (categories s) category_id")
  case None
  then show ?thesis using assms by (simp add: use_fallback_article_def)
next
  case (Some c)
  let ?a = "fallback_articles c ! (rng e (now s) mod length (fallback_articles c))"
  let ?s1 = "emit (Draw (rng e (now s))) s"
  have wc: "wf_category s c" using assms(1) Some by (rule wf_bot_category)
  then have "?a \<in> set (fallback_articles c)" by (simp add: wf_category_def)
  then have a: "?a < length (heap s)" using wc by (simp add: wf_category_def)
  have w1: "wf_bot ?s1" using frame_emit assms(1) by (rule frame_wf)
  have "wf_bot (?s1\<lparr>current_article := Some ?a,
                   heap := (heap ?s1)[?a := (heap ?s1 ! ?a)\<lparr>category := Some category_id,
                                                     is_fallback := Some True\<rparr>]\<rparr>)"
    using w1 a Some by (intro wf_bot_mark) (simp_all add: emit_def)
  moreover have "s' = ?s1\<lparr>current_article := Some ?a,
                   heap := (heap ?s1)[?a := (heap ?s1 ! ?a)\<lparr>category := Some category_id,
                                                     is_fallback := Some True\<rparr>]\<rparr>"
    using use_fallback_article_defined [OF assms(1) Some, of e] assms(2) by (simp add: emit_def)
  ultimately show ?thesis by simp
qed

lemma resolve_article_wf:
  assumes "wf_bot s" and "resolve_article e category_id s = (r, s')"
  shows "wf_bot s'"
proof -
  obtain ok s1 where t: "try_get_fresh_article e category_id s = (ok, s1)"
    by (cases "try_get_fresh_article e category_id s")
  have w1: "wf_bot s1" using t assms(1) by (rule try_get_fresh_article_wf)
  show ?thesis
  proof (cases ok)
    case True
    then show ?thesis using assms(2) t w1 by (simp add: resolve_article_def)
  next
    case False
    then have "use_fallback_article e category_id s1 = (r, s')"
      using assms(2) t by (simp add: resolve_article_def)
    with w1 show ?thesis by (rule use_fallback_article_wf)
  qed
qed

text \<open>
  Claim C1. For a category of the catalogue, article resolution never raises and leaves
  a draft in the slot, whatever the feeds answer. When every feed of the category fails
  or has no entries, the draft is the fallback article of that category that the random
  draw picks, marked as a fallback of this category, with its title and summary, both
  non-empty.
\<close>

theorem total_fallback_coverage:
  assumes "wf_bot s" and "map_of (categories s) category_id = Some c"
  shows
    "(\<exists>s' a. resolve_article e category_id s = (Inr (), s')
        \<and> current_article s' = Some a \<and> a < length (heap s') \<and> wf_bot s')
     \<and> ((\<forall>u \<in> set (rss c). \<forall>t. feed e t u = None \<or> feed e t u = Some []) \<longrightarrow>
          (\<exists>s' a. resolve_article e category_id s = (Inr (), s')
             \<and> a = fallback_articles c
                     ! (rng e (now s + length (rss c)) mod length (fallback_articles c))
             \<and> a \<in> set (fallback_articles c)
             \<and> current_article s' = Some a
             \<and> heap s' ! a
                 = (heap s ! a)\<lparr>category := Some category_id, is_fallback := Some True\<rparr>
             \<and> title (heap s' ! a) \<noteq> [] \<and> summary (heap s' ! a) \<noteq> []
             \<and> is_fallback (heap s' ! a) = Some True))"
proof (intro conjI impI)
  obtain ok s1 where t: "try_get_fresh_article e category_id s = (ok, s1)"
    by (cases "try_get_fresh_article e category_id s")
  have w1: "wf_bot s1" using t assms(1) by (rule try_get_fresh_article_wf)
  show "\<exists>s' a. resolve_article e category_id s = (Inr (), s')
        \<and> current_article s' = Some a \<and> a < length (heap s') \<and> wf_bot s'"
  proof (cases ok)
    case True
    with try_get_fresh_article_cases [OF t] obtain s2 art
      where "s1 = s2\<lparr>current_article := Some (length (heap s)), heap := heap s @ [art]\<rparr>"
      by blast
    then have "current_article s1 = Some (length (heap s))" and "length (heap s) < length (heap s1)"
      by simp_all
    moreover have "resolve_article e category_id s = (Inr (), s1)"
      using t True by (simp add: resolve_article_def)
    ultimately show ?thesis using w1 by blast
  next
    case False
    with try_get_fresh_article_cases [OF t] have fr: "frame s s1" by blast
    then have m1: "map_of (categories s1) category_id = Some c"
      using frame_fields [OF fr] assms(2) by simp
    let ?a = "fallback_articles c ! (rng e (now s1) mod length (fallback_articles c))"
    have wc: "wf_category s1 c" using w1 m1 by (rule wf_bot_category)
    then have "?a \<in> set (fallback_articles c)" by (simp add: wf_category_def)
    then have a: "?a < length (heap s1)" using wc by (simp add: wf_category_def)
    obtain s' where u: "use_fallback_article e category_id s1 = (Inr (), s')"
      and c': "current_article s' = Some ?a" and h': "length (heap s') = length (heap s1)"
      using use_fallback_article_defined [OF w1 m1, of e] by simp
    have "wf_bot s'" using w1 u by (rule use_fallback_article_wf)
    moreover have "resolve_article e category_id s = (Inr (), s')"
      using t False u by (simp add: resolve_article_def)
    ultimately show ?thesis using c' h' a by auto
  qed
next
  assume down: "\<forall>u \<in> set (rss c). \<forall>t. feed e t u = None \<or> feed e t u = Some []"
  let ?s1 = "s\<lparr>trace := trace s @ map FeedGet (rss c)\<rparr>"
  have t: "try_get_fresh_article e category_id s = (False, ?s1)"
    using assms(2) try_feeds_all_fail [OF down] by (simp add: try_get_fresh_article_def)
  have w1: "wf_bot ?s1" using t assms(1) by (rule try_get_fresh_article_wf)
  have m1: "map_of (categories ?s1) category_id = Some c" using assms(2) by simp
  have n1: "now ?s1 = now s + length (rss c)" by (simp add: now_def)
  let ?a = "fallback_articles c ! (rng e (now s + length (rss c)) mod length (fallback_articles c))"
  have wc: "wf_category s c" using assms by (rule wf_bot_category)
  then have mem: "?a \<in> set (fallback_articles c)" by (simp add: wf_category_def)
  then have a: "?a < length (heap s)" and ti: "title (heap s ! ?a) \<noteq> []"
    and su: "summary (heap s ! ?a) \<noteq> []"
    using wc by (simp_all add: wf_category_def)
  obtain s' where u: "use_fallback_article e category_id ?s1 = (Inr (), s')"
    and c': "current_article s' = Some ?a"
    and h': "heap s' = (heap s)[?a := (heap s ! ?a)\<lparr>category := Some category_id,
                                                     is_fallback := Some True\<rparr>]"
    using use_fallback_article_defined [OF w1 m1, of e] unfolding n1 by simp
  have r: "resolve_article e category_id s = (Inr (), s')"
    using t u by (simp add: resolve_article_def)
  have "heap s' ! ?a = (heap s ! ?a)\<lparr>category := Some category_id, is_fallback := Some True\<rparr>"
    using a by (simp add: h')
  then show "\<exists>s' a. resolve_article e category_id s = (Inr (), s')
             \<and> a = fallback_articles c
                     ! (rng e (now s + length (rss c)) mod length (fallback_articles c))
             \<and> a \<in> set (fallback_articles c)
             \<and> current_article s' = Some a
             \<and> heap s' ! a
                 = (heap s ! a)\<lparr>category := Some category_id, is_fallback := Some True\<rparr>
             \<and> title (heap s' ! a) \<noteq> [] \<and> summary (heap s' ! a) \<noteq> []
             \<and> is_fallback (heap s' ! a) = Some True"
    using r mem c' ti su by simp
qed

theorem total_fallback_coverage_witness:
  "wf_bot bot0 \<and> map_of (categories bot0) tech = Some category_tech
   \<and> (\<forall>u t. feed env_down t u = None)
   \<and> (\<exists>s'. resolve_article env_down tech bot0 = (Inr (), s')
         \<and> current_article s' = Some 1
         \<and> title (heap s' ! 1) = title_tech_2 \<and> summary (heap s' ! 1) = summary_tech_2
         \<and> category (heap s' ! 1) = Some tech \<and> is_fallback (heap s' ! 1) = Some True)"
proof -
  have down: "\<forall>u \<in> set (rss category_tech). \<forall>t.
                feed env_down t u = None \<or> feed env_down t u = Some []"
    by (simp add: env_down_def)
  have pick: "fallback_articles category_tech
                ! (rng env_down (now bot0 + length (rss category_tech))
                   mod length (fallback_articles category_tech)) = 1"
    by (simp add: env_down_def category_tech_def)
  have rec: "heap bot0 ! 1 = fallback_record title_tech_2 summary_tech_2"
    by (simp add: bot0_def initial_heap_def)
  from total_fallback_coverage [OF wf_bot0 map_of_bot0_tech, of env_down] down
  obtain s' where "resolve_article env_down tech bot0 = (Inr (), s')"
    and "current_article s' = Some 1"
    and "heap s' ! 1 = (heap bot0 ! 1)\<lparr>category := Some tech, is_fallback := Some True\<rparr>"
    unfolding pick by blast
  then show ?thesis
    using wf_bot0 map_of_bot0_tech rec by (simp add: env_down_def fallback_record_def)
qed

section \<open>Image Resolver\<close>

lemma extract_image_frame: "extract_image_from_article e s = (r, s') \<Longrightarrow> frame s s'"
  by (auto simp: extract_image_from_article_def frame_refl frame_emit
      split: option.splits if_splits)

lemma unsplash_nonempty: "unsplash \<noteq> []"
  by (simp add: unsplash_def ascii_def)

lemma stock_image_frame: "stock_image e c s = (r, s') \<Longrightarrow> frame s s'"
  unfolding stock_image_def
  by (auto split: prod.splits sum.splits if_splits
      dest!: frame_choice intro: frame_trans frame_emit)

lemma stock_image_nonempty: "stock_image e c s = (Some url, s') \<Longrightarrow> url \<noteq> []"
  unfolding stock_image_def
  by (auto simp: unsplash_nonempty split: prod.splits sum.splits if_splits)

lemma stock_image_no_200:
  "\<forall>t u. probe e t u \<noteq> Some 200 \<Longrightarrow> fst (stock_image e c s) = None"
  unfolding stock_image_def
  by (auto split: prod.splits sum.splits)

lemma stock_or_fallback_image_ok:
  assumes "fallback_images c \<noteq> []" and "[] \<notin> set (fallback_images c)"
  shows "\<exists>url s'. stock_or_fallback_image e c s = (Inr url, s') \<and> url \<noteq> [] \<and> frame s s'"
proof -
  obtain r s1 where st: "stock_image e c s = (r, s1)"
    by (cases "stock_image e c s")
  have f1: "frame s s1" using st by (rule stock_image_frame)
  show ?thesis
  proof (cases r)
    case (Some url)
    then have "url \<noteq> []" using st stock_image_nonempty by blast
    then show ?thesis using st Some f1 by (simp add: stock_or_fallback_image_def)
  next
    case None
    let ?url = "fallback_images c ! (rng e (now s1) mod length (fallback_images c))"
    have "?url \<in> set (fallback_images c)" using assms(1) by simp
    then have "?url \<noteq> []" using assms(2) by metis
    moreover have "frame s (emit (Draw (rng e (now s1))) s1)"
      using f1 frame_emit by (rule frame_trans)
    ultimately show ?thesis
      using st None assms(1) by (simp add: stock_or_fallback_image_def choice_nonempty)
  qed
qed

lemma stock_or_fallback_image_fallback:
  assumes "fallback_images c \<noteq> []" and "\<forall>t u. probe e t u \<noteq> Some 200"
  shows "\<exists>t s'. stock_or_fallback_image e c s
                   = (Inr (fallback_images c ! (rng e t mod length (fallback_images c))), s')
               \<and> frame s s'"
proof -
  obtain r s1 where st: "stock_image e c s = (r, s1)"
    by (cases "stock_image e c s")
  have f1: "frame s s1" using st by (rule stock_image_frame)
  have "r = None" using stock_image_no_200 [OF assms(2), of c s] st by simp
  moreover have "frame s (emit (Draw (rng e (now s1))) s1)"
    using f1 frame_emit by (rule frame_trans)
  ultimately show ?thesis
    using st assms(1) by (auto simp: stock_or_fallback_image_def choice_nonempty)
qed

lemma get_image_no_draft:
  assumes "wf_bot s" and "current_article s = None"
  shows "get_image_with_fallback e s =
           (Inr (hd (fallback_images
                       (snd (categories s ! (rng e (now s) mod length (categories s)))))),
            emit (Draw (rng e (now s))) s)
         \<and> hd (fallback_images
                  (snd (categories s ! (rng e (now s) mod length (categories s))))) \<noteq> []"
proof -
  let ?i = "rng e (now s) mod length (categories s)"
  have ne: "categories s \<noteq> []" using assms(1) by (simp add: wf_bot_def)
  then have i: "?i < length (categories s)" by simp
  then have "snd (categories s ! ?i) \<in> set (map snd (categories s))"
    by (metis length_map nth_map nth_mem)
  then have wc: "wf_category s (snd (categories s ! ?i))"
    using assms(1) by (simp add: wf_bot_def)
  then obtain url rest where fi: "fallback_images (snd (categories s ! ?i)) = url # rest"
    by (cases "fallback_images (snd (categories s ! ?i))") (auto simp: wf_category_def)
  then have "url \<noteq> []" using wc by (auto simp: wf_category_def)
  moreover have "map snd (categories s) ! ?i = snd (categories s ! ?i)"
    using i by simp
  ultimately show ?thesis
    using assms(2) ne fi by (simp add: get_image_with_fallback_def choice_nonempty)
qed

lemma wf_bot_draft:
  assumes "wf_bot s" and "current_article s = Some a"
  shows "\<exists>category_id c. a < length (heap s) \<and> category (heap s ! a) = Some category_id
           \<and> map_of (categories s) category_id = Some c \<and> wf_category s c"
proof -
  from assms obtain category_id where "a < length (heap s)"
    and "category (heap s ! a) = Some category_id"
    and "map_of (categories s) category_id \<noteq> None"
    by (auto simp: wf_bot_def wf_draft_def split: option.splits)
  moreover then obtain c where "map_of (categories s) category_id = Some c" by blast
  moreover then have "wf_category s c" using assms(1) wf_bot_category by blast
  ultimately show ?thesis by blast
qed

lemma get_image_with_draft:
  assumes "current_article s = Some a" and "category (heap s ! a) = Some category_id"
    and "map_of (categories s) category_id = Some c"
  shows "get_image_with_fallback e s =
           (if is_fallback (heap s ! a) = Some False
            then (case extract_image_from_article e s of
                    (Some img, s1) \<Rightarrow>
                      if img \<noteq> [] then (Inr img, s1) else stock_or_fallback_image e c s1
                  | (None, s1) \<Rightarrow> stock_or_fallback_image e c s1)
            else stock_or_fallback_image e c s)"
  using assms by (simp add: get_image_with_fallback_def)

lemma get_image_ok:
  assumes "wf_bot s"
  shows "\<exists>url s'. get_image_with_fallback e s = (Inr url, s') \<and> url \<noteq> [] \<and> frame s s'"
proof (cases "current_article s")
  case None
  with get_image_no_draft [OF assms, of e] show ?thesis
    using frame_emit by metis
next
  case (Some a)
  from wf_bot_draft [OF assms Some] obtain category_id c
    where cat: "category (heap s ! a) = Some category_id"
      and m: "map_of (categories s) category_id = Some c" and wc: "wf_category s c"
    by blast
  have im: "fallback_images c \<noteq> []" "[] \<notin> set (fallback_images c)"
    using wc by (simp_all add: wf_category_def)
  note g = get_image_with_draft [OF Some cat m, of e]
  show ?thesis
  proof (cases "is_fallback (heap s ! a) = Some False")
    case False
    then show ?thesis using g stock_or_fallback_image_ok [OF im, of e s] by simp
  next
    case True
    obtain r s1 where ex: "extract_image_from_article e s = (r, s1)"
      by (cases "extract_image_from_article e s")
    have f1: "frame s s1" using ex by (rule extract_image_frame)
    from stock_or_fallback_image_ok [OF im, of e s1] obtain url s'
      where sf: "stock_or_fallback_image e c s1 = (Inr url, s')" "url \<noteq> []" "frame s1 s'"
      by blast
    have f2: "frame s s'" using f1 sf(3) by (rule frame_trans)
    show ?thesis
    proof (cases r)
      case None
      then show ?thesis using g True ex sf f2 by simp
    next
      case (Some img)
      then show ?thesis using g True ex sf f1 f2 by (cases "img = []") simp_all
    qed
  qed
qed

text \<open>
  Claim C3. Image resolution returns without raising, with a non-empty URL. When the
  extraction from the article yields nothing (it is skipped for a fallback draft, or
  returns None) and no probe answers 200, the URL is the element of the fallback image
  list of the draft's category that a random draw picks.
\<close>

theorem image_resolution:
  assumes "wf_bot s"
  shows
    "(\<exists>url s'. get_image_with_fallback e s = (Inr url, s') \<and> url \<noteq> [])
     \<and> (current_article s = Some a \<and> category (heap s ! a) = Some category_id
          \<and> map_of (categories s) category_id = Some c
          \<and> (is_fallback (heap s ! a) \<noteq> Some False
               \<or> fst (extract_image_from_article e s) = None)
          \<and> (\<forall>t u. probe e t u \<noteq> Some 200)
        \<longrightarrow> (\<exists>t s'. get_image_with_fallback e s
                        = (Inr (fallback_images c ! (rng e t mod length (fallback_images c))), s')
                \<and> fallback_images c ! (rng e t mod length (fallback_images c))
                    \<in> set (fallback_images c)))"
proof (intro conjI impI)
  show "\<exists>url s'. get_image_with_fallback e s = (Inr url, s') \<and> url \<noteq> []"
    using get_image_ok [OF assms, of e] by blast
next
  assume h: "current_article s = Some a \<and> category (heap s ! a) = Some category_id
          \<and> map_of (categories s) category_id = Some c
          \<and> (is_fallback (heap s ! a) \<noteq> Some False
               \<or> fst (extract_image_from_article e s) = None)
          \<and> (\<forall>t u. probe e t u \<noteq> Some 200)"
  then have wc: "wf_category s c" using assms wf_bot_category by blast
  then have im: "fallback_images c \<noteq> []" by (simp add: wf_category_def)
  from h have p: "\<forall>t u. probe e t u \<noteq> Some 200" by blast
  have mem: "fallback_images c ! (rng e t mod length (fallback_images c)) \<in> set (fallback_images c)"
    for t using im by simp
  from h have ca: "current_article s = Some a" and ct: "category (heap s ! a) = Some category_id"
    and m: "map_of (categories s) category_id = Some c"
    by blast+
  note g = get_image_with_draft [OF ca ct m, of e]
  show "\<exists>t s'. get_image_with_fallback e s
                        = (Inr (fallback_images c ! (rng e t mod length (fallback_images c))), s')
                \<and> fallback_images c ! (rng e t mod length (fallback_images c))
                    \<in> set (fallback_images c)"
  proof (cases "is_fallback (heap s ! a) = Some False")
    case False
    then show ?thesis
      using g stock_or_fallback_image_fallback [OF im p, of s] mem by auto
  next
    case True
    with h have "fst (extract_image_from_article e s) = None" by blast
    then obtain s1 where "extract_image_from_article e s = (None, s1)"
      by (cases "extract_image_from_article e s") simp
    then show ?thesis
      using g True stock_or_fallback_image_fallback [OF im p, of s1] mem by auto
  qed
qed

text \<open>
  Claim C10. With an empty draft slot, image resolution returns without raising: it
  draws once, takes the category of the catalogue at the drawn index and returns the
  first entry of its fallback image list. The draw is the only event: no page is
  fetched and no probe is sent.
\<close>

theorem image_without_draft:
  assumes "wf_bot s" and "current_article s = None"
  shows
    "\<exists>c url rest s'.
        c = snd (categories s ! (rng e (now s) mod length (categories s)))
        \<and> c \<in> set (map snd (categories s))
        \<and> fallback_images c = url # rest
        \<and> get_image_with_fallback e s = (Inr url, s')
        \<and> s' = s\<lparr>trace := trace s @ [Draw (rng e (now s))]\<rparr>"
proof -
  let ?i = "rng e (now s) mod length (categories s)"
  let ?c = "snd (categories s ! ?i)"
  have ne: "categories s \<noteq> []" using assms(1) by (simp add: wf_bot_def)
  then have i: "?i < length (categories s)" by simp
  then have mem: "?c \<in> set (map snd (categories s))"
    by (metis length_map nth_map nth_mem)
  then have "wf_category s ?c" using assms(1) by (simp add: wf_bot_def)
  then obtain url rest where fi: "fallback_images ?c = url # rest"
    by (cases "fallback_images ?c") (auto simp: wf_category_def)
  have "get_image_with_fallback e s = (Inr url, s\<lparr>trace := trace s @ [Draw (rng e (now s))]\<rparr>)"
    using get_image_no_draft [OF assms, of e] fi by (simp add: emit_def)
  then show ?thesis using mem fi by blast
qed

section \<open>A fresh draft\<close>

lemma bot_fresh_eq:
  "try_get_fresh_article env_fresh tech bot0 =
     (True,
      bot0\<lparr>current_article := Some 4,
           heap := initial_heap
             @ [\<lparr>title = ascii ''T'', summary = ascii ''short'',
                 link = Some (ascii ''http://x''), category = Some tech,
                 is_fallback = Some False\<rparr>],
           trace := [FeedGet (ascii ''https://habr.com/ru/rss/hub/python/''), Draw 1]\<rparr>)"
proof -
  have f: "fresh_article tech short_entry
             = Some \<lparr>title = ascii ''T'', summary = ascii ''short'',
                 link = Some (ascii ''http://x''), category = Some tech,
                 is_fallback = Some False\<rparr>"
    by (simp add: fresh_article_def short_entry_def truncate_summary_def ascii_def)
  have c: "choice env_fresh [short_entry] s = (Inr short_entry, emit (Draw 1) s)" for s
    by (simp add: choice_def env_fresh_def)
  have r: "rss category_tech = ascii ''https://habr.com/ru/rss/hub/python/'' # tl (rss category_tech)"
    by (simp add: category_tech_def)
  have fd: "feed env_fresh t u = Some [short_entry]" for t u
    by (simp add: env_fresh_def)
  have "try_feeds env_fresh tech (rss category_tech) bot0 =
          (True, (emit (Draw 1) (emit (FeedGet (ascii ''https://habr.com/ru/rss/hub/python/'')) bot0))
             \<lparr>current_article := Some (length (heap bot0)),
              heap := heap bot0 @ [\<lparr>title = ascii ''T'', summary = ascii ''short'',
                 link = Some (ascii ''http://x''), category = Some tech,
                 is_fallback = Some False\<rparr>]\<rparr>)"
    by (subst r) (simp add: fd c f emit_def)
  then show ?thesis
    using map_of_bot0_tech
    by (simp add: try_get_fresh_article_def emit_def) (simp add: bot0_def initial_heap_def)
qed

lemma wf_bot_fresh: "wf_bot bot_fresh"
proof -
  have "try_get_fresh_article env_fresh tech bot0 = (True, bot_fresh)"
    by (simp add: bot_fresh_def bot_fresh_eq)
  then show ?thesis using wf_bot0 by (rule try_get_fresh_article_wf)
qed

lemma bot_fresh_fields:
  "current_article bot_fresh = Some 4"
  "heap bot_fresh ! 4 = \<lparr>title = ascii ''T'', summary = ascii ''short'',
                 link = Some (ascii ''http://x''), category = Some tech,
                 is_fallback = Some False\<rparr>"
  "categories bot_fresh = categories bot0"
  by (simp_all add: bot_fresh_def bot_fresh_eq initial_heap_def)

lemma extract_bot_fresh: "fst (extract_image_from_article env_fresh bot_fresh) = None"
  by (simp add: extract_image_from_article_def bot_fresh_fields env_fresh_def ascii_def)

theorem image_resolution_witness:
  "wf_bot bot_fresh \<and> current_article bot_fresh = Some 4
   \<and> category (heap bot_fresh ! 4) = Some tech
   \<and> map_of (categories bot_fresh) tech = Some category_tech
   \<and> fst (extract_image_from_article env_fresh bot_fresh) = None
   \<and> (\<forall>t u. probe env_fresh t u \<noteq> Some 200)
   \<and> (\<exists>s'. get_image_with_fallback env_fresh bot_fresh
              = (Inr (ascii ''https://images.unsplash.com/photo-1558494949-ef010cbdcc31''), s'))"
proof -
  have p: "\<forall>t u. probe env_fresh t u \<noteq> Some 200"
    by (simp add: env_fresh_def)
  have m: "map_of (categories bot_fresh) tech = Some category_tech"
    using map_of_bot0_tech by (simp add: bot_fresh_fields)
  have c: "category (heap bot_fresh ! 4) = Some tech"
    by (simp add: bot_fresh_fields)
  have pick: "fallback_images category_tech
                ! (rng env_fresh t mod length (fallback_images category_tech))
              = ascii ''https://images.unsplash.com/photo-1558494949-ef010cbdcc31''" for t
    by (simp add: env_fresh_def category_tech_def)
  from image_resolution [OF wf_bot_fresh, of env_fresh 4 tech category_tech]
    bot_fresh_fields(1) c m extract_bot_fresh p
  have "\<exists>t s'. get_image_with_fallback env_fresh bot_fresh
                 = (Inr (fallback_images category_tech
                          ! (rng env_fresh t mod length (fallback_images category_tech))), s')"
    by blast
  then show ?thesis
    unfolding pick using wf_bot_fresh bot_fresh_fields(1) c m extract_bot_fresh p by blast
qed

theorem image_without_draft_witness:
  "wf_bot bot0 \<and> current_article bot0 = None
   \<and> get_image_with_fallback env_down bot0
       = (Inr (ascii ''https://images.unsplash.com/photo-1562601579-599dec564e06''),
          bot0\<lparr>trace := [Draw 1]\<rparr>)"
proof -
  have n: "current_article bot0 = None" by (simp add: bot0_def)
  have r: "rng env_down (now bot0) = 1" by (simp add: env_down_def)
  have c: "snd (categories bot0 ! (1 mod length (categories bot0))) = category_politics"
    by (simp add: bot0_def)
  have t: "trace bot0 = []" by (simp add: bot0_def)
  from image_without_draft [OF wf_bot0 n, of env_down]
  obtain url rest where "fallback_images category_politics = url # rest"
    and "get_image_with_fallback env_down bot0 = (Inr url, bot0\<lparr>trace := [Draw 1]\<rparr>)"
    unfolding r c t by auto
  then show ?thesis
    using wf_bot0 n by (simp add: category_politics_def)
qed

section \<open>Inline image selection\<close>

lemma startswith_iff: "startswith s p \<longleftrightarrow> (\<exists>b. s = p @ b)"
proof
  assume "startswith s p"
  then have "s = p @ drop (length p) s"
    unfolding startswith_def by (metis append_take_drop_id)
  then show "\<exists>b. s = p @ b" ..
next
  assume "\<exists>b. s = p @ b"
  then show "startswith s p" by (auto simp: startswith_def)
qed

lemma contains_iff: "contains s p \<longleftrightarrow> (\<exists>a b. s = a @ p @ b)"
proof (induction s)
  case Nil
  then show ?case by auto
next
  case (Cons c s)
  show ?case
  proof
    assume "contains (c # s) p"
    then consider "startswith (c # s) p" | "contains s p" by auto
    then show "\<exists>a b. c # s = a @ p @ b"
    proof cases
      case 1
      then obtain b where "c # s = p @ b" using startswith_iff by blast
      then have "c # s = [] @ p @ b" by simp
      then show ?thesis by blast
    next
      case 2
      then obtain a b where "s = a @ p @ b" using Cons.IH by blast
      then have "c # s = (c # a) @ p @ b" by simp
      then show ?thesis by blast
    qed
  next
    assume "\<exists>a b. c # s = a @ p @ b"
    then obtain a b where ab: "c # s = a @ p @ b" by blast
    show "contains (c # s) p"
    proof (cases a)
      case Nil
      then have "startswith (c # s) p" using ab startswith_iff by auto
      then show ?thesis by simp
    next
      case (Cons c' a')
      then have "s = a' @ p @ b" using ab by simp
      then have "contains s p" using Cons.IH by blast
      then show ?thesis by simp
    qed
  qed
qed

lemma suitable_image_iff:
  "suitable_image src \<longleftrightarrow>
     startswith src http \<and> (\<exists>ext \<in> set image_extensions. \<exists>p q. src = p @ ext @ q)"
  by (simp add: suitable_image_def list_ex_iff contains_iff)

lemma find_inline_image_Some:
  "find_inline_image srcs = Some u \<Longrightarrow>
     \<exists>before after. srcs = before @ u # after \<and> suitable_image u
        \<and> (\<forall>x \<in> set before. \<not> suitable_image x)"
proof (induction srcs)
  case Nil
  then show ?case by simp
next
  case (Cons src rest)
  show ?case
  proof (cases "suitable_image src")
    case True
    with Cons.prems have "u = src" by simp
    then have "src # rest = [] @ u # rest \<and> suitable_image u \<and> (\<forall>x \<in> set []. \<not> suitable_image x)"
      using True by simp
    then show ?thesis by blast
  next
    case False
    with Cons.prems have "find_inline_image rest = Some u" by simp
    from Cons.IH [OF this] obtain before after
      where "rest = before @ u # after" "suitable_image u" "\<forall>x \<in> set before. \<not> suitable_image x"
      by blast
    then have "src # rest = (src # before) @ u # after \<and> suitable_image u
        \<and> (\<forall>x \<in> set (src # before). \<not> suitable_image x)"
      using False by simp
    then show ?thesis by blast
  qed
qed

lemma find_inline_image_None:
  "find_inline_image srcs = None \<longleftrightarrow> (\<forall>x \<in> set srcs. \<not> suitable_image x)"
  by (induction srcs) auto

lemma find_meta_image_None:
  "find_meta_image ms = None \<longleftrightarrow>
     (\<forall>(property, content) \<in> set ms.
        \<not> (property \<in> set meta_image_properties
             \<and> startswith (case content of None \<Rightarrow> [] | Some c \<Rightarrow> c) http))"
proof (induction ms)
  case Nil
  then show ?case by simp
next
  case (Cons m ms)
  obtain property content where m: "m = (property, content)" by (cases m)
  have "startswith (case content of None \<Rightarrow> [] | Some c \<Rightarrow> c) http \<Longrightarrow> content \<noteq> None"
    by (cases content) (auto simp: startswith_def http_def ascii_def)
  then show ?case using Cons.IH by (auto simp: m)
qed

lemma extract_image_inline:
  assumes "current_article s = Some a" and "link (heap s ! a) = Some l" and "l \<noteq> []"
    and "page e (now s) l = Some soup" and "find_meta_image (metas soup) = None"
  shows "extract_image_from_article e s = (find_inline_image (imgs soup), emit (PageGet l) s)"
  using assms by (simp add: extract_image_from_article_def)

text \<open>
  Claim C8, as the code has it. When the page of a fresh draft has no qualifying meta
  image, the extractor returns the first inline image source that starts with
  \<^verbatim>\<open>http\<close> and in which one of \<^verbatim>\<open>.jpg\<close>, \<^verbatim>\<open>.jpeg\<close>, \<^verbatim>\<open>.png\<close> occurs somewhere; it
  returns None exactly when no source is like that.
\<close>

theorem inline_image_selection:
  assumes "current_article s = Some a" and "link (heap s ! a) = Some l" and "l \<noteq> []"
    and "page e (now s) l = Some soup" and "find_meta_image (metas soup) = None"
  shows
    "(\<forall>u. fst (extract_image_from_article e s) = Some u \<longrightarrow>
         (\<exists>before after. imgs soup = before @ u # after
            \<and> startswith u http
            \<and> (\<exists>ext \<in> set image_extensions. \<exists>p q. u = p @ ext @ q)
            \<and> (\<forall>x \<in> set before.
                  \<not> (startswith x http
                      \<and> (\<exists>ext \<in> set image_extensions. \<exists>p q. x = p @ ext @ q)))))
     \<and> (fst (extract_image_from_article e s) = None \<longleftrightarrow>
          (\<forall>x \<in> set (imgs soup).
             \<not> (startswith x http
                 \<and> (\<exists>ext \<in> set image_extensions. \<exists>p q. x = p @ ext @ q))))"
proof -
  have ex: "fst (extract_image_from_article e s) = find_inline_image (imgs soup)"
    using extract_image_inline [OF assms] by simp
  have some: "\<exists>before after. imgs soup = before @ u # after
            \<and> startswith u http
            \<and> (\<exists>ext \<in> set image_extensions. \<exists>p q. u = p @ ext @ q)
            \<and> (\<forall>x \<in> set before.
                  \<not> (startswith x http
                      \<and> (\<exists>ext \<in> set image_extensions. \<exists>p q. x = p @ ext @ q)))"
    if "find_inline_image (imgs soup) = Some u" for u
    using find_inline_image_Some [OF that] unfolding suitable_image_iff by blast
  have none: "find_inline_image (imgs soup) = None \<longleftrightarrow>
          (\<forall>x \<in> set (imgs soup).
             \<not> (startswith x http
                 \<and> (\<exists>ext \<in> set image_extensions. \<exists>p q. x = p @ ext @ q)))"
    using find_inline_image_None [of "imgs soup"] unfolding suitable_image_iff .
  show ?thesis
    unfolding ex using some none by (intro conjI allI impI)
qed

lemma extract_query:
  "fst (extract_image_from_article env_query bot_fresh) = Some (ascii ''https://x/a.jpg?w=1'')"
proof -
  have l: "link (heap bot_fresh ! 4) = Some (ascii ''http://x'')"
    by (simp add: bot_fresh_fields)
  have ne: "ascii ''http://x'' \<noteq> []" by (simp add: ascii_def)
  have p: "page env_query (now bot_fresh) (ascii ''http://x'') = Some page_query"
    by (simp add: env_query_def)
  have m: "find_meta_image (metas page_query) = None" by (simp add: page_query_def)
  have "suitable_image (ascii ''https://x/a.jpg?w=1'')"
    by (simp add: suitable_image_def http_def image_extensions_def startswith_def ascii_def)
  then have "find_inline_image (imgs page_query) = Some (ascii ''https://x/a.jpg?w=1'')"
    by (simp add: page_query_def)
  then show ?thesis
    using extract_image_inline [OF bot_fresh_fields(1) l ne p m] by simp
qed

theorem inline_image_selection_witness:
  "current_article bot_fresh = Some 4 \<and> link (heap bot_fresh ! 4) = Some (ascii ''http://x'')
   \<and> ascii ''http://x'' \<noteq> []
   \<and> page env_query (now bot_fresh) (ascii ''http://x'') = Some page_query
   \<and> find_meta_image (metas page_query) = None
   \<and> fst (extract_image_from_article env_query bot_fresh) = Some (ascii ''https://x/a.jpg?w=1'')
   \<and> (\<exists>before after. imgs page_query = before @ ascii ''https://x/a.jpg?w=1'' # after)
   \<and> startswith (ascii ''https://x/a.jpg?w=1'') http
   \<and> (\<exists>ext p q. ext \<in> set image_extensions \<and> ascii ''https://x/a.jpg?w=1'' = p @ ext @ q)"
proof -
  have l: "link (heap bot_fresh ! 4) = Some (ascii ''http://x'')"
    by (simp add: bot_fresh_fields)
  have ne: "ascii ''http://x'' \<noteq> []" by (simp add: ascii_def)
  have p: "page env_query (now bot_fresh) (ascii ''http://x'') = Some page_query"
    by (simp add: env_query_def)
  have m: "find_meta_image (metas page_query) = None" by (simp add: page_query_def)
  from inline_image_selection [OF bot_fresh_fields(1) l ne p m] extract_query
  have "\<exists>before after. imgs page_query = before @ ascii ''https://x/a.jpg?w=1'' # after
            \<and> startswith (ascii ''https://x/a.jpg?w=1'') http
            \<and> (\<exists>ext \<in> set image_extensions. \<exists>p q. ascii ''https://x/a.jpg?w=1'' = p @ ext @ q)"
    by blast
  then show ?thesis
    using bot_fresh_fields(1) l ne p m extract_query by blast
qed

text \<open>
  Claim C8 as the specification states it fails: on the page with the two images the
  extractor returns the first source, which contains \<^verbatim>\<open>.jpg\<close> and ends in none of the
  extensions, where the specification selects the second.
\<close>

theorem inline_image_counterexample:
  "find_meta_image (metas page_query) = None
   \<and> fst (extract_image_from_article env_query bot_fresh) = Some (ascii ''https://x/a.jpg?w=1'')
   \<and> \<not> list_ex (endswith (ascii ''https://x/a.jpg?w=1'')) image_extensions
   \<and> spec_inline_image (imgs page_query) = Some (ascii ''https://x/b.png'')"
proof -
  have "find_meta_image (metas page_query) = None" by (simp add: page_query_def)
  moreover have "\<not> list_ex (endswith (ascii ''https://x/a.jpg?w=1'')) image_extensions"
    by (simp add: image_extensions_def endswith_def ascii_def)
  moreover have "spec_inline_image (imgs page_query) = Some (ascii ''https://x/b.png'')"
    by (simp add: spec_inline_image_def page_query_def image_extensions_def endswith_def
        startswith_def http_def ascii_def)
  ultimately show ?thesis using extract_query by blast
qed

section \<open>Delivery Layer\<close>

lemma retry_loop_cases:
  "0 < n \<Longrightarrow>
     \<exists>k ok. k < n
       \<and> retry_loop e r n s
           = (if ok then Inr () else Inl TelegramError,
              s\<lparr>trace := trace s @ replicate k (Send r False) @ [Send r ok]\<rparr>)
       \<and> (\<not> ok \<longrightarrow> k = n - 1)
       \<and> (\<forall>i<k. \<not> deliver e (now s + i) r)
       \<and> ok = deliver e (now s + k) r"
proof (induction n arbitrary: s)
  case 0
  then show ?case by simp
next
  case (Suc left)
  show ?case
  proof (cases "deliver e (now s) r")
    case True
    then have "0 < Suc left
       \<and> retry_loop e r (Suc left) s
           = (if True then Inr () else Inl TelegramError,
              s\<lparr>trace := trace s @ replicate 0 (Send r False) @ [Send r True]\<rparr>)
       \<and> (\<not> True \<longrightarrow> 0 = Suc left - 1)
       \<and> (\<forall>i<0. \<not> deliver e (now s + i) r)
       \<and> True = deliver e (now s + 0) r"
      by (simp add: emit_def)
    then show ?thesis by blast
  next
    case False
    show ?thesis
    proof (cases "left = 0")
      case True
      with False have "0 < Suc left
         \<and> retry_loop e r (Suc left) s
             = (if False then Inr () else Inl TelegramError,
                s\<lparr>trace := trace s @ replicate 0 (Send r False) @ [Send r False]\<rparr>)
         \<and> (\<not> False \<longrightarrow> 0 = Suc left - 1)
         \<and> (\<forall>i<0. \<not> deliver e (now s + i) r)
         \<and> False = deliver e (now s + 0) r"
        by (simp add: emit_def)
      then show ?thesis by blast
    next
      case nz: False
      let ?s1 = "emit (Send r False) s"
      from nz have "0 < left" by simp
      from Suc.IH [OF this, of ?s1] obtain k ok where k: "k < left"
        and res: "retry_loop e r left ?s1
           = (if ok then Inr () else Inl TelegramError,
              ?s1\<lparr>trace := trace ?s1 @ replicate k (Send r False) @ [Send r ok]\<rparr>)"
        and last: "\<not> ok \<longrightarrow> k = left - 1"
        and before: "\<forall>i<k. \<not> deliver e (now ?s1 + i) r"
        and ok: "ok = deliver e (now ?s1 + k) r"
        by blast
      have n1: "now ?s1 = Suc (now s)" by (rule now_emit)
      have "\<not> deliver e (now s + i) r" if "i < Suc k" for i
      proof (cases i)
        case 0
        then show ?thesis using False by simp
      next
        case (Suc j)
        then have "j < k" using that by simp
        then show ?thesis using before n1 Suc by simp
      qed
      then have "Suc k < Suc left
         \<and> retry_loop e r (Suc left) s
             = (if ok then Inr () else Inl TelegramError,
                s\<lparr>trace := trace s @ replicate (Suc k) (Send r False) @ [Send r ok]\<rparr>)
         \<and> (\<not> ok \<longrightarrow> Suc k = Suc left - 1)
         \<and> (\<forall>i<Suc k. \<not> deliver e (now s + i) r)
         \<and> ok = deliver e (now s + Suc k) r"
        using k res last ok n1 False nz by (auto simp: emit_def)
      then show ?thesis by blast
    qed
  qed
qed

lemma send_with_retry_cases:
  "\<exists>k ok. k < 3
       \<and> send_with_retry e r s
           = (if ok then Inr () else Inl TelegramError,
              s\<lparr>trace := trace s @ replicate k (Send r False) @ [Send r ok]\<rparr>)
       \<and> (\<not> ok \<longrightarrow> k = 2)
       \<and> (\<forall>i<k. \<not> deliver e (now s + i) r)
       \<and> ok = deliver e (now s + k) r"
  using retry_loop_cases [of 3 e r s] by (simp add: send_with_retry_def max_retries_def)

lemma send_with_retry_frame: "send_with_retry e r s = (res, s') \<Longrightarrow> frame s s'"
  using send_with_retry_cases [of e r s] by (auto simp: frame_def)

lemma send_with_retry_accept:
  "deliver e (now s) r \<Longrightarrow> send_with_retry e r s = (Inr (), s\<lparr>trace := trace s @ [Send r True]\<rparr>)"
  by (simp add: send_with_retry_def max_retries_def numeral_3_eq_3 emit_def)

lemma send_with_retry_reject:
  assumes "\<forall>i<3. \<not> deliver e (now s + i) r"
  shows "send_with_retry e r s
           = (Inl TelegramError, s\<lparr>trace := trace s @ replicate 3 (Send r False)\<rparr>)"
proof -
  from assms have "\<not> deliver e (now s) r" "\<not> deliver e (Suc (now s)) r"
    "\<not> deliver e (Suc (Suc (now s))) r"
    by (metis add_0_right zero_less_numeral, metis add_Suc_right add_0_right One_nat_def one_less_numeral_iff semiring_norm(77),
        metis add_Suc_right add_0_right numeral_3_eq_3 lessI)
  then show ?thesis
    by (simp add: send_with_retry_def max_retries_def numeral_3_eq_3 emit_def now_def)
qed

lemma attempts_append: "attempts r (xs @ ys) = attempts r xs + attempts r ys"
  by (simp add: attempts_def)

lemma attempts_replicate: "attempts r (replicate n (Send r ok)) = n"
  by (cases ok) (simp_all add: attempts_def)

lemma attempts_other: "r' \<noteq> r \<Longrightarrow> attempts r (replicate n (Send r' ok)) = 0"
  by (simp add: attempts_def)

lemma news_text_fields:
  "req_text (news_text update caption rm) = caption"
  "req_markup (news_text update caption rm) = rm"
  "req_photo (news_text update caption rm) = None"
  "req_method (news_text update caption rm)
     = (if update = Update then reply_text else edit_message_text)"
  by (simp_all add: news_text_def text_message_def)

text \<open>
  Claim C5, as the code has it. When the photo message is rejected on each of its three
  attempts, the caption is sent as text, with the same buttons, through the same retry
  loop: up to three attempts, the first accepted one being the last, and the error of
  the third leaves the function. So the text is attempted between one and three times.
\<close>

theorem text_fallback_retried:
  assumes "\<forall>i<3. \<not> deliver e (now s + i) (news_photo update image_url caption rm)"
  shows
    "\<exists>k ok. k < 3
       \<and> send_news_message e update image_url caption rm s
           = (if ok then Inr () else Inl TelegramError,
              s\<lparr>trace := trace s
                 @ replicate 3 (Send (news_photo update image_url caption rm) False)
                 @ replicate k (Send (news_text update caption rm) False)
                 @ [Send (news_text update caption rm) ok]\<rparr>)
       \<and> (\<not> ok \<longrightarrow> k = 2)
       \<and> (\<forall>i<k. \<not> deliver e (now s + 3 + i) (news_text update caption rm))
       \<and> ok = deliver e (now s + 3 + k) (news_text update caption rm)
       \<and> req_text (news_text update caption rm) = caption
       \<and> req_markup (news_text update caption rm) = rm
       \<and> req_photo (news_text update caption rm) = None"
proof -
  let ?photo = "news_photo update image_url caption rm"
  let ?text = "news_text update caption rm"
  let ?s1 = "s\<lparr>trace := trace s @ replicate 3 (Send ?photo False)\<rparr>"
  have p: "send_with_retry e ?photo s = (Inl TelegramError, ?s1)"
    using assms by (rule send_with_retry_reject)
  have n1: "now ?s1 = now s + 3" by (simp add: now_def)
  have m: "send_news_message e update image_url caption rm s = send_with_retry e ?text ?s1"
    using p by (simp add: send_news_message_def)
  have t1: "?s1\<lparr>trace := trace ?s1 @ tr\<rparr>
              = s\<lparr>trace := trace s @ replicate 3 (Send ?photo False) @ tr\<rparr>" for tr
    by simp
  show ?thesis
    using send_with_retry_cases [of e ?text ?s1]
    unfolding m n1 t1 news_text_fields by simp
qed

theorem text_fallback_retried_witness:
  "(\<forall>i. \<not> deliver env_reject (now bot0 + i)
          (news_photo Update (ascii ''http://x/i.jpg'') title_tech_1 None))
   \<and> send_news_message env_reject Update (ascii ''http://x/i.jpg'') title_tech_1 None bot0
       = (Inl TelegramError,
          bot0\<lparr>trace :=
                 replicate 3
                   (Send (news_photo Update (ascii ''http://x/i.jpg'') title_tech_1 None) False)
                 @ replicate 3 (Send (news_text Update title_tech_1 None) False)\<rparr>)"
proof -
  have rej: "\<not> deliver env_reject t r" for t r
    by (simp add: env_reject_def)
  then have h: "\<forall>i<3. \<not> deliver env_reject (now bot0 + i)
             (news_photo Update (ascii ''http://x/i.jpg'') title_tech_1 None)"
    by simp
  have t: "trace bot0 = []" by (simp add: bot0_def)
  from text_fallback_retried [OF h] obtain k where
    "\<exists>ok. k < 3 \<and> send_news_message env_reject Update (ascii ''http://x/i.jpg'') title_tech_1 None bot0
           = (if ok then Inr () else Inl TelegramError,
              bot0\<lparr>trace := trace bot0
                 @ replicate 3
                     (Send (news_photo Update (ascii ''http://x/i.jpg'') title_tech_1 None) False)
                 @ replicate k (Send (news_text Update title_tech_1 None) False)
                 @ [Send (news_text Update title_tech_1 None) ok]\<rparr>)
       \<and> (\<not> ok \<longrightarrow> k = 2)
       \<and> (\<forall>i<k. \<not> deliver env_reject (now bot0 + 3 + i) (news_text Update title_tech_1 None))
       \<and> ok = deliver env_reject (now bot0 + 3 + k) (news_text Update title_tech_1 None)
       \<and> req_text (news_text Update title_tech_1 None) = title_tech_1
       \<and> req_markup (news_text Update title_tech_1 None) = None
       \<and> req_photo (news_text Update title_tech_1 None) = None" ..
  then obtain ok where *:
    "k < 3 \<and> send_news_message env_reject Update (ascii ''http://x/i.jpg'') title_tech_1 None bot0
           = (if ok then Inr () else Inl TelegramError,
              bot0\<lparr>trace := trace bot0
                 @ replicate 3
                     (Send (news_photo Update (ascii ''http://x/i.jpg'') title_tech_1 None) False)
                 @ replicate k (Send (news_text Update title_tech_1 None) False)
                 @ [Send (news_text Update title_tech_1 None) ok]\<rparr>)
       \<and> (\<not> ok \<longrightarrow> k = 2)
       \<and> (\<forall>i<k. \<not> deliver env_reject (now bot0 + 3 + i) (news_text Update title_tech_1 None))
       \<and> ok = deliver env_reject (now bot0 + 3 + k) (news_text Update title_tech_1 None)
       \<and> req_text (news_text Update title_tech_1 None) = title_tech_1
       \<and> req_markup (news_text Update title_tech_1 None) = None
       \<and> req_photo (news_text Update title_tech_1 None) = None" ..
  from rej have nok: "\<not> ok" using * by simp
  have k2: "k = 2" using * nok by simp
  have r3: "replicate 2 x @ [x] = replicate 3 x" for x :: event
    by (simp add: numeral_3_eq_3 numeral_2_eq_2)
  from * have "send_news_message env_reject Update (ascii ''http://x/i.jpg'') title_tech_1 None bot0
           = (if ok then Inr () else Inl TelegramError,
              bot0\<lparr>trace := trace bot0
                 @ replicate 3
                     (Send (news_photo Update (ascii ''http://x/i.jpg'') title_tech_1 None) False)
                 @ replicate k (Send (news_text Update title_tech_1 None) False)
                 @ [Send (news_text Update title_tech_1 None) ok]\<rparr>)"
    by (rule conjunct1 [OF conjunct2])
  then have "send_news_message env_reject Update (ascii ''http://x/i.jpg'') title_tech_1 None bot0
       = (Inl TelegramError,
          bot0\<lparr>trace :=
                 replicate 3
                   (Send (news_photo Update (ascii ''http://x/i.jpg'') title_tech_1 None) False)
                 @ replicate 3 (Send (news_text Update title_tech_1 None) False)\<rparr>)"
    unfolding k2 t using nok by (simp add: r3)
  then show ?thesis
    using rej by simp
qed

text \<open>
  Claim C5 as the specification states it fails: with a transport that rejects every
  call, the text fallback is attempted three times, not once.
\<close>

theorem text_fallback_counterexample:
  "attempts (news_text Update title_tech_1 None)
     (trace (snd (send_news_message env_reject Update (ascii ''http://x/i.jpg'')
                    title_tech_1 None bot0))) = 3"
proof -
  have rej: "deliver env_reject t r = False" for t r
    by (simp add: env_reject_def)
  have ne: "news_photo Update (ascii ''http://x/i.jpg'') title_tech_1 None
              \<noteq> news_text Update title_tech_1 None"
    by (simp add: news_photo_def news_text_def photo_message_def text_message_def)
  have t: "trace bot0 = []" by (simp add: bot0_def)
  have "trace (snd (send_news_message env_reject Update (ascii ''http://x/i.jpg'')
                    title_tech_1 None bot0))
       = replicate 3
           (Send (news_photo Update (ascii ''http://x/i.jpg'') title_tech_1 None) False)
         @ replicate 3 (Send (news_text Update title_tech_1 None) False)"
    by (simp add: send_news_message_def send_with_retry_def max_retries_def numeral_3_eq_3
        rej emit_def t)
  then show ?thesis
    using ne by (simp add: attempts_append attempts_replicate attempts_other)
qed


text \<open>
  Claim C9. A publish with an empty draft slot sends the warning to the user through the
  retry loop and does nothing else: no call to the channel is made, and the state is the
  one before but for the attempts recorded in the trace. When the transport accepts the
  warning it is sent once and the function returns normally.
\<close>

theorem publish_without_draft:
  assumes "current_article s = None"
  shows
    "\<exists>k ok. k < 3
       \<and> publish_article e s
           = (if ok then Inr () else Inl TelegramError,
              s\<lparr>trace := trace s @ replicate k (Send warning False) @ [Send warning ok]\<rparr>)
       \<and> (deliver e (now s) warning \<longrightarrow> k = 0 \<and> ok)
       \<and> req_method warning = edit_message_text \<and> req_text warning = warning_no_data
       \<and> attempts (channel_photo chat image_url caption) (trace (snd (publish_article e s)))
          = attempts (channel_photo chat image_url caption) (trace s)
       \<and> current_article (snd (publish_article e s)) = None
       \<and> heap (snd (publish_article e s)) = heap s
       \<and> categories (snd (publish_article e s)) = categories s"
proof -
  let ?chan = "channel_photo chat image_url caption"
  have p: "publish_article e s = send_with_retry e warning s"
    using assms by (simp add: publish_article_def)
  have ne: "warning \<noteq> ?chan"
    by (simp add: warning_def channel_photo_def text_message_def photo_message_def)
  from send_with_retry_cases [of e warning s] obtain k where
    "\<exists>ok. k < 3
       \<and> send_with_retry e warning s
           = (if ok then Inr () else Inl TelegramError,
              s\<lparr>trace := trace s @ replicate k (Send warning False) @ [Send warning ok]\<rparr>)
       \<and> (\<not> ok \<longrightarrow> k = 2)
       \<and> (\<forall>i<k. \<not> deliver e (now s + i) warning)
       \<and> ok = deliver e (now s + k) warning" ..
  then obtain ok where k: "k < 3"
    and res: "send_with_retry e warning s
           = (if ok then Inr () else Inl TelegramError,
              s\<lparr>trace := trace s @ replicate k (Send warning False) @ [Send warning ok]\<rparr>)"
    and before: "\<forall>i<k. \<not> deliver e (now s + i) warning"
    and ok: "ok = deliver e (now s + k) warning"
    by blast
  have first: "deliver e (now s) warning \<longrightarrow> k = 0 \<and> ok"
  proof
    assume d: "deliver e (now s) warning"
    have "k = 0" using before d by (cases k) auto
    then show "k = 0 \<and> ok" using ok d by simp
  qed
  have pr: "publish_article e s
           = (if ok then Inr () else Inl TelegramError,
              s\<lparr>trace := trace s @ replicate k (Send warning False) @ [Send warning ok]\<rparr>)"
    using res unfolding p .
  have "attempts ?chan [Send warning ok] = 0"
    using ne by (simp add: attempts_def)
  then have a: "attempts ?chan (trace (snd (publish_article e s))) = attempts ?chan (trace s)"
    using ne by (simp add: pr attempts_append attempts_other)
  have f1: "req_method warning = edit_message_text" and f2: "req_text warning = warning_no_data"
    by (simp_all add: warning_def text_message_def)
  have st1: "current_article (snd (publish_article e s)) = None"
    and st2: "heap (snd (publish_article e s)) = heap s"
    and st3: "categories (snd (publish_article e s)) = categories s"
    using assms by (simp_all add: pr)
  show ?thesis
    using k pr first f1 f2 a st1 st2 st3 by (intro exI [of _ k] exI [of _ ok] conjI)
qed

theorem publish_without_draft_witness:
  "current_article bot0 = None
   \<and> deliver env_down (now bot0) warning
   \<and> publish_article env_down bot0 = (Inr (), bot0\<lparr>trace := [Send warning True]\<rparr>)"
proof -
  have n: "current_article bot0 = None" by (simp add: bot0_def)
  have d: "deliver env_down (now bot0) warning"
    by (simp add: env_down_def)
  have t: "trace bot0 = []" by (simp add: bot0_def)
  from publish_without_draft [OF n, of env_down] obtain k where
    "\<exists>ok. k < 3
       \<and> publish_article env_down bot0
           = (if ok then Inr () else Inl TelegramError,
              bot0\<lparr>trace := trace bot0 @ replicate k (Send warning False) @ [Send warning ok]\<rparr>)
       \<and> (deliver env_down (now bot0) warning \<longrightarrow> k = 0 \<and> ok)" by blast
  then obtain ok where "publish_article env_down bot0
           = (if ok then Inr () else Inl TelegramError,
              bot0\<lparr>trace := trace bot0 @ replicate k (Send warning False) @ [Send warning ok]\<rparr>)"
    and "k = 0 \<and> ok"
    using d by blast
  then show ?thesis using n d t by simp
qed

section \<open>Publishing\<close>

lemma frame_trace: "frame s s' \<Longrightarrow> \<exists>tr. s' = s\<lparr>trace := trace s @ tr\<rparr>"
proof -
  assume f: "frame s s'"
  then have "trace s' = trace s @ drop (length (trace s)) (trace s')"
    unfolding frame_def by (metis append_take_drop_id)
  moreover from f have "s' = s\<lparr>trace := trace s'\<rparr>" by (simp add: frame_def)
  ultimately have "s' = s\<lparr>trace := trace s @ drop (length (trace s)) (trace s')\<rparr>" by simp
  then show ?thesis ..
qed

text \<open>The \<^verbatim>\<open>try\<close> block of a publish, once the image is resolved.\<close>

lemma publish_try_run:
  assumes "wf_bot s" and "current_article s = Some a"
  shows "\<exists>category_id c url tr.
           category (heap s ! a) = Some category_id
           \<and> map_of (categories s) category_id = Some c
           \<and> get_image_with_fallback e s = (Inr url, s\<lparr>trace := trace s @ tr\<rparr>)
           \<and> publish_try e a s =
               (case send_with_retry e
                       (channel_photo (channel_id s) url (post_text c (heap s ! a)))
                       (s\<lparr>trace := trace s @ tr\<rparr>) of
                  (Inl err, s2) \<Rightarrow> (Inl err, s2)
                | (Inr u, s2) \<Rightarrow>
                    (case send_with_retry e (confirmation c) s2 of
                       (Inl err, s3) \<Rightarrow> (Inl err, s3)
                     | (Inr u, s3) \<Rightarrow> (Inr (), s3\<lparr>current_article := None\<rparr>)))"
proof -
  from wf_bot_draft [OF assms] obtain category_id c
    where cat: "category (heap s ! a) = Some category_id"
      and m: "map_of (categories s) category_id = Some c"
    by blast
  from get_image_ok [OF assms(1), of e] obtain url s1
    where g: "get_image_with_fallback e s = (Inr url, s1)" and f: "frame s s1"
    by blast
  from frame_trace [OF f] obtain tr where s1: "s1 = s\<lparr>trace := trace s @ tr\<rparr>" ..
  have "publish_try e a s =
               (case send_with_retry e
                       (channel_photo (channel_id s) url (post_text c (heap s ! a)))
                       (s\<lparr>trace := trace s @ tr\<rparr>) of
                  (Inl err, s2) \<Rightarrow> (Inl err, s2)
                | (Inr u, s2) \<Rightarrow>
                    (case send_with_retry e (confirmation c) s2 of
                       (Inl err, s3) \<Rightarrow> (Inl err, s3)
                     | (Inr u, s3) \<Rightarrow> (Inr (), s3\<lparr>current_article := None\<rparr>)))"
    using cat m g unfolding s1 by (simp add: publish_try_def)
  then show ?thesis using cat m g s1 by blast
qed

lemma channel_photo_method: "req_method (channel_photo chat url caption) = send_photo"
  by (simp add: channel_photo_def photo_message_def)

lemma edit_methods:
  "req_method (confirmation c) = edit_message_text"
  "req_method failure_notice = edit_message_text"
  "req_method warning = edit_message_text"
  by (simp_all add: confirmation_def failure_notice_def warning_def text_message_def)

lemma publish_accepted:
  assumes "wf_bot s" and "current_article s = Some a"
    and ch: "\<forall>t r. req_method r = send_photo \<longrightarrow> deliver e t r"
    and ed: "\<forall>t r. req_method r = edit_message_text \<longrightarrow> deliver e t r"
  shows "\<exists>category_id c url tr.
           category (heap s ! a) = Some category_id
           \<and> map_of (categories s) category_id = Some c
           \<and> publish_article e s =
               (Inr (),
                s\<lparr>trace := trace s @ tr
                     @ [Send (channel_photo (channel_id s) url (post_text c (heap s ! a))) True,
                        Send (confirmation c) True],
                  current_article := None\<rparr>)"
proof -
  from publish_try_run [OF assms(1,2), of e] obtain category_id c url tr
    where cat: "category (heap s ! a) = Some category_id"
      and m: "map_of (categories s) category_id = Some c"
      and run: "publish_try e a s =
               (case send_with_retry e
                       (channel_photo (channel_id s) url (post_text c (heap s ! a)))
                       (s\<lparr>trace := trace s @ tr\<rparr>) of
                  (Inl err, s2) \<Rightarrow> (Inl err, s2)
                | (Inr u, s2) \<Rightarrow>
                    (case send_with_retry e (confirmation c) s2 of
                       (Inl err, s3) \<Rightarrow> (Inl err, s3)
                     | (Inr u, s3) \<Rightarrow> (Inr (), s3\<lparr>current_article := None\<rparr>)))"
    by blast
  let ?chan = "channel_photo (channel_id s) url (post_text c (heap s ! a))"
  have d1: "deliver e t ?chan" for t using ch channel_photo_method by blast
  have d2: "deliver e t (confirmation c)" for t using ed edit_methods(1) by blast
  have "publish_try e a s =
               (Inr (),
                s\<lparr>trace := trace s @ tr @ [Send ?chan True, Send (confirmation c) True],
                  current_article := None\<rparr>)"
    unfolding run by (simp add: send_with_retry_accept d1 d2)
  then have "publish_article e s =
               (Inr (),
                s\<lparr>trace := trace s @ tr @ [Send ?chan True, Send (confirmation c) True],
                  current_article := None\<rparr>)"
    using assms(2) by (simp add: publish_article_def)
  then show ?thesis using cat m by blast
qed

lemma publish_rejected:
  assumes "wf_bot s" and "current_article s = Some a"
    and ch: "\<forall>t r. req_method r = send_photo \<longrightarrow> \<not> deliver e t r"
  shows "\<exists>category_id c url tr k ok.
           category (heap s ! a) = Some category_id
           \<and> map_of (categories s) category_id = Some c
           \<and> k < 3
           \<and> publish_article e s =
               (if ok then Inr () else Inl TelegramError,
                s\<lparr>trace := trace s @ tr
                     @ replicate 3
                         (Send (channel_photo (channel_id s) url (post_text c (heap s ! a))) False)
                     @ replicate k (Send failure_notice False)
                     @ [Send failure_notice ok]\<rparr>)
           \<and> ok = deliver e (length (trace s @ tr) + 3 + k) failure_notice"
proof -
  from publish_try_run [OF assms(1,2), of e] obtain category_id c url tr
    where cat: "category (heap s ! a) = Some category_id"
      and m: "map_of (categories s) category_id = Some c"
      and run: "publish_try e a s =
               (case send_with_retry e
                       (channel_photo (channel_id s) url (post_text c (heap s ! a)))
                       (s\<lparr>trace := trace s @ tr\<rparr>) of
                  (Inl err, s2) \<Rightarrow> (Inl err, s2)
                | (Inr u, s2) \<Rightarrow>
                    (case send_with_retry e (confirmation c) s2 of
                       (Inl err, s3) \<Rightarrow> (Inl err, s3)
                     | (Inr u, s3) \<Rightarrow> (Inr (), s3\<lparr>current_article := None\<rparr>)))"
    by blast
  let ?chan = "channel_photo (channel_id s) url (post_text c (heap s ! a))"
  let ?s1 = "s\<lparr>trace := trace s @ tr\<rparr>"
  let ?s2 = "s\<lparr>trace := trace s @ tr @ replicate 3 (Send ?chan False)\<rparr>"
  have "\<forall>i<3. \<not> deliver e (now ?s1 + i) ?chan" using ch channel_photo_method by blast
  from send_with_retry_reject [OF this]
  have "send_with_retry e ?chan ?s1 = (Inl TelegramError, ?s2)" by simp
  then have "publish_try e a s = (Inl TelegramError, ?s2)"
    unfolding run by simp
  then have p: "publish_article e s = send_with_retry e failure_notice ?s2"
    using assms(2) by (simp add: publish_article_def)
  have n2: "now ?s2 = length (trace s @ tr) + 3" by (simp add: now_def)
  from send_with_retry_cases [of e failure_notice ?s2] obtain k where
    "\<exists>ok. k < 3
       \<and> send_with_retry e failure_notice ?s2
           = (if ok then Inr () else Inl TelegramError,
              ?s2\<lparr>trace := trace ?s2 @ replicate k (Send failure_notice False)
                     @ [Send failure_notice ok]\<rparr>)
       \<and> (\<not> ok \<longrightarrow> k = 2)
       \<and> (\<forall>i<k. \<not> deliver e (now ?s2 + i) failure_notice)
       \<and> ok = deliver e (now ?s2 + k) failure_notice" ..
  then obtain ok where k: "k < 3"
    and res: "send_with_retry e failure_notice ?s2
           = (if ok then Inr () else Inl TelegramError,
              ?s2\<lparr>trace := trace ?s2 @ replicate k (Send failure_notice False)
                     @ [Send failure_notice ok]\<rparr>)"
    and ok: "ok = deliver e (now ?s2 + k) failure_notice"
    by blast
  have pr: "publish_article e s =
               (if ok then Inr () else Inl TelegramError,
                s\<lparr>trace := trace s @ tr @ replicate 3 (Send ?chan False)
                     @ replicate k (Send failure_notice False)
                     @ [Send failure_notice ok]\<rparr>)"
    unfolding p res by simp
  have ok': "ok = deliver e (length (trace s @ tr) + 3 + k) failure_notice"
    using ok unfolding n2 .
  show ?thesis
    using cat m k pr ok'
    by (intro exI [of _ category_id] exI [of _ c] exI [of _ url] exI [of _ tr]
        exI [of _ k] exI [of _ ok] conjI)
qed

text \<open>
  What a publish with a draft does, for any transport: the failure notice when the post
  to the channel fails after its retries, the failure notice as well when the post
  succeeded and the confirmation fails, and the slot cleared when both succeeded.
\<close>

lemma publish_outcome:
  assumes "wf_bot s" and "current_article s = Some a"
  shows "\<exists>category_id c url tr r2 s2 r3 s3.
           category (heap s ! a) = Some category_id
           \<and> map_of (categories s) category_id = Some c
           \<and> get_image_with_fallback e s = (Inr url, s\<lparr>trace := trace s @ tr\<rparr>)
           \<and> send_with_retry e (channel_photo (channel_id s) url (post_text c (heap s ! a)))
                 (s\<lparr>trace := trace s @ tr\<rparr>) = (r2, s2)
           \<and> send_with_retry e (confirmation c) s2 = (r3, s3)
           \<and> publish_article e s =
                 (if r2 \<noteq> Inr () then send_with_retry e failure_notice s2
                  else if r3 \<noteq> Inr () then send_with_retry e failure_notice s3
                  else (Inr (), s3\<lparr>current_article := None\<rparr>))"
proof -
  from publish_try_run [OF assms, of e] obtain category_id c url tr
    where cat: "category (heap s ! a) = Some category_id"
      and m: "map_of (categories s) category_id = Some c"
      and g: "get_image_with_fallback e s = (Inr url, s\<lparr>trace := trace s @ tr\<rparr>)"
      and run: "publish_try e a s =
               (case send_with_retry e
                       (channel_photo (channel_id s) url (post_text c (heap s ! a)))
                       (s\<lparr>trace := trace s @ tr\<rparr>) of
                  (Inl err, s2) \<Rightarrow> (Inl err, s2)
                | (Inr u, s2) \<Rightarrow>
                    (case send_with_retry e (confirmation c) s2 of
                       (Inl err, s3) \<Rightarrow> (Inl err, s3)
                     | (Inr u, s3) \<Rightarrow> (Inr (), s3\<lparr>current_article := None\<rparr>)))"
    by blast
  let ?chan = "channel_photo (channel_id s) url (post_text c (heap s ! a))"
  obtain r2 s2 where a2: "send_with_retry e ?chan (s\<lparr>trace := trace s @ tr\<rparr>) = (r2, s2)"
    by (cases "send_with_retry e ?chan (s\<lparr>trace := trace s @ tr\<rparr>)")
  obtain r3 s3 where a3: "send_with_retry e (confirmation c) s2 = (r3, s3)"
    by (cases "send_with_retry e (confirmation c) s2")
  have "publish_article e s =
                 (if r2 \<noteq> Inr () then send_with_retry e failure_notice s2
                  else if r3 \<noteq> Inr () then send_with_retry e failure_notice s3
                  else (Inr (), s3\<lparr>current_article := None\<rparr>))"
    using assms(2) a2 a3
    by (cases r2; cases r3) (simp_all add: publish_article_def run)
  then show ?thesis
    using cat m g a2 a3
    by (intro exI [of _ category_id] exI [of _ c] exI [of _ url] exI [of _ tr]
        exI [of _ r2] exI [of _ s2] exI [of _ r3] exI [of _ s3] conjI)
qed

text \<open>
  So the slot is empty after a publish exactly when the post and the confirmation were
  both accepted within their retries; in every other run the draft stays.
\<close>

lemma publish_clears_iff:
  assumes "wf_bot s" and "current_article s = Some a"
  shows "\<exists>c url tr s2.
           get_image_with_fallback e s = (Inr url, s\<lparr>trace := trace s @ tr\<rparr>)
           \<and> s2 = snd (send_with_retry e
                         (channel_photo (channel_id s) url (post_text c (heap s ! a)))
                         (s\<lparr>trace := trace s @ tr\<rparr>))
           \<and> (current_article (snd (publish_article e s)) = None \<longleftrightarrow>
                fst (send_with_retry e
                       (channel_photo (channel_id s) url (post_text c (heap s ! a)))
                       (s\<lparr>trace := trace s @ tr\<rparr>)) = Inr ()
                \<and> fst (send_with_retry e (confirmation c) s2) = Inr ())
           \<and> (current_article (snd (publish_article e s)) \<noteq> None \<longrightarrow>
                current_article (snd (publish_article e s)) = Some a)"
proof -
  from publish_outcome [OF assms, of e] obtain c url tr r2 s2 r3 s3
    where g: "get_image_with_fallback e s = (Inr url, s\<lparr>trace := trace s @ tr\<rparr>)"
      and a2: "send_with_retry e (channel_photo (channel_id s) url (post_text c (heap s ! a)))
                 (s\<lparr>trace := trace s @ tr\<rparr>) = (r2, s2)"
      and a3: "send_with_retry e (confirmation c) s2 = (r3, s3)"
      and p: "publish_article e s =
                 (if r2 \<noteq> Inr () then send_with_retry e failure_notice s2
                  else if r3 \<noteq> Inr () then send_with_retry e failure_notice s3
                  else (Inr (), s3\<lparr>current_article := None\<rparr>))"
    by blast
  have d1: "current_article (s\<lparr>trace := trace s @ tr\<rparr>) = Some a" using assms(2) by simp
  have d2: "current_article s2 = Some a"
    using frame_fields [OF send_with_retry_frame [OF a2]] d1 by simp
  have d3: "current_article s3 = Some a"
    using frame_fields [OF send_with_retry_frame [OF a3]] d2 by simp
  have k2: "current_article (snd (send_with_retry e failure_notice s2)) = Some a"
    using frame_fields [OF send_with_retry_frame [of e failure_notice s2]] d2
    by (cases "send_with_retry e failure_notice s2") simp
  have k3: "current_article (snd (send_with_retry e failure_notice s3)) = Some a"
    using frame_fields [OF send_with_retry_frame [of e failure_notice s3]] d3
    by (cases "send_with_retry e failure_notice s3") simp
  have iff: "current_article (snd (publish_article e s)) = None \<longleftrightarrow> r2 = Inr () \<and> r3 = Inr ()"
    unfolding p using k2 k3 by simp
  have keep: "current_article (snd (publish_article e s)) \<noteq> None \<longrightarrow>
                current_article (snd (publish_article e s)) = Some a"
    unfolding p using k2 k3 by simp
  have s2: "s2 = snd (send_with_retry e
                         (channel_photo (channel_id s) url (post_text c (heap s ! a)))
                         (s\<lparr>trace := trace s @ tr\<rparr>))"
    using a2 by simp
  have "current_article (snd (publish_article e s)) = None \<longleftrightarrow>
                fst (send_with_retry e
                       (channel_photo (channel_id s) url (post_text c (heap s ! a)))
                       (s\<lparr>trace := trace s @ tr\<rparr>)) = Inr ()
                \<and> fst (send_with_retry e (confirmation c) s2) = Inr ()"
    using iff a2 a3 by simp
  then show ?thesis
    using g s2 keep
    by (intro exI [of _ c] exI [of _ url] exI [of _ tr] exI [of _ s2] conjI)
qed

section \<open>A confirmation that is lost\<close>

text \<open>
  In \<open>env_confirm_lost\<close>, in any state that differs from \<open>bot_fresh\<close> by its trace:
  the page of the article cannot be fetched, the probe answers 302, and the image is the
  second fallback image of \<^verbatim>\<open>tech\<close>.
\<close>

lemma get_image_confirm_lost:
  assumes "frame bot_fresh s"
  shows "get_image_with_fallback env_confirm_lost s =
           (Inr (ascii ''https://images.unsplash.com/photo-1558494949-ef010cbdcc31''),
            s\<lparr>trace := trace s
                 @ [PageGet (ascii ''http://x''), Draw 1, Head (unsplash @ kw_tech_2), Draw 1]\<rparr>)"
proof -
  from frame_fields [OF assms] have d: "current_article s = Some 4"
    and h: "heap s ! 4 = \<lparr>title = ascii ''T'', summary = ascii ''short'',
                 link = Some (ascii ''http://x''), category = Some tech,
                 is_fallback = Some False\<rparr>"
    and cs: "categories s = categories bot0"
    by (simp_all add: bot_fresh_fields)
  have c: "category (heap s ! 4) = Some tech" by (simp add: h)
  have m: "map_of (categories s) tech = Some category_tech"
    using map_of_bot0_tech by (simp add: cs)
  have ne: "ascii ''http://x'' \<noteq> []" by (simp add: ascii_def)
  have ex: "extract_image_from_article env_confirm_lost s
              = (None, emit (PageGet (ascii ''http://x'')) s)"
    using ne by (simp add: extract_image_from_article_def d h env_confirm_lost_def env_fresh_def)
  have st: "stock_or_fallback_image env_confirm_lost category_tech s1
              = (Inr (ascii ''https://images.unsplash.com/photo-1558494949-ef010cbdcc31''),
                 s1\<lparr>trace := trace s1 @ [Draw 1, Head (unsplash @ kw_tech_2), Draw 1]\<rparr>)" for s1
    by (simp add: stock_or_fallback_image_def stock_image_def choice_def env_confirm_lost_def
        env_fresh_def category_tech_def emit_def now_def)
  show ?thesis
    using get_image_with_draft [OF d c m, of env_confirm_lost]
    by (simp add: h ex st emit_def)
qed

lemma publish_confirm_lost:
  assumes "frame bot_fresh s"
  shows "publish_article env_confirm_lost s =
           (Inr (),
            s\<lparr>trace := trace s
                 @ [PageGet (ascii ''http://x''), Draw 1, Head (unsplash @ kw_tech_2), Draw 1,
                    Send fresh_post True,
                    Send (confirmation category_tech) False,
                    Send (confirmation category_tech) False,
                    Send (confirmation category_tech) False,
                    Send failure_notice True]\<rparr>)"
proof -
  have w: "wf_bot s" using assms wf_bot_fresh by (rule frame_wf)
  have ch0: "channel_id bot_fresh = Some (ascii ''@channel'')"
    by (simp add: bot_fresh_def bot_fresh_eq) (simp add: bot0_def)
  from frame_fields [OF assms] have d: "current_article s = Some 4"
    and h: "heap s ! 4 = heap bot_fresh ! 4"
    and cs: "categories s = categories bot0"
    and ch: "channel_id s = Some (ascii ''@channel'')"
    by (simp_all add: bot_fresh_fields ch0)
  have c: "category (heap s ! 4) = Some tech" by (simp add: h bot_fresh_fields)
  have m: "map_of (categories s) tech = Some category_tech"
    using map_of_bot0_tech by (simp add: cs)
  let ?tr = "[PageGet (ascii ''http://x''), Draw 1, Head (unsplash @ kw_tech_2), Draw 1]"
  from publish_outcome [OF w d, of env_confirm_lost] obtain category_id c' url tr r2 s2 r3 s3
    where "category (heap s ! 4) = Some category_id"
      and "map_of (categories s) category_id = Some c'"
      and g: "get_image_with_fallback env_confirm_lost s = (Inr url, s\<lparr>trace := trace s @ tr\<rparr>)"
      and a2: "send_with_retry env_confirm_lost
                 (channel_photo (channel_id s) url (post_text c' (heap s ! 4)))
                 (s\<lparr>trace := trace s @ tr\<rparr>) = (r2, s2)"
      and a3: "send_with_retry env_confirm_lost (confirmation c') s2 = (r3, s3)"
      and p: "publish_article env_confirm_lost s =
                 (if r2 \<noteq> Inr () then send_with_retry env_confirm_lost failure_notice s2
                  else if r3 \<noteq> Inr () then send_with_retry env_confirm_lost failure_notice s3
                  else (Inr (), s3\<lparr>current_article := None\<rparr>))"
    by blast
  then have c': "c' = category_tech" using c m by simp
  have url: "url = ascii ''https://images.unsplash.com/photo-1558494949-ef010cbdcc31''"
    using g get_image_confirm_lost [OF assms] by simp
  have "s\<lparr>trace := trace s @ tr\<rparr> = s\<lparr>trace := trace s @ ?tr\<rparr>"
    using g get_image_confirm_lost [OF assms] by simp
  then have "trace (s\<lparr>trace := trace s @ tr\<rparr>) = trace (s\<lparr>trace := trace s @ ?tr\<rparr>)"
    by (rule arg_cong)
  then have tr: "tr = ?tr" by simp
  have post: "channel_photo (channel_id s) url (post_text c' (heap s ! 4)) = fresh_post"
    by (simp add: fresh_post_def ch url c' h)
  have acc: "deliver env_confirm_lost t fresh_post" for t
    by (simp add: env_confirm_lost_def fresh_post_def channel_photo_method)
  have rej: "\<not> deliver env_confirm_lost t (confirmation category_tech)" for t
    by (simp add: env_confirm_lost_def confirmation_def failure_notice_def text_message_def)
  have fn: "deliver env_confirm_lost t failure_notice" for t
    by (simp add: env_confirm_lost_def)
  have r2: "r2 = Inr ()" and s2: "s2 = s\<lparr>trace := trace s @ ?tr @ [Send fresh_post True]\<rparr>"
    using a2 send_with_retry_accept [OF acc, of "s\<lparr>trace := trace s @ ?tr\<rparr>"]
    unfolding post tr by simp_all
  have "\<forall>i<3. \<not> deliver env_confirm_lost (now s2 + i) (confirmation category_tech)"
    using rej by simp
  from send_with_retry_reject [OF this]
  have r3: "r3 = Inl TelegramError"
    and s3: "s3 = s\<lparr>trace := trace s @ ?tr @ [Send fresh_post True]
                       @ replicate 3 (Send (confirmation category_tech) False)\<rparr>"
    using a3 unfolding c' s2 by simp_all
  have "publish_article env_confirm_lost s = send_with_retry env_confirm_lost failure_notice s3"
    unfolding p using r2 r3 by simp
  also have "\<dots> = (Inr (), s3\<lparr>trace := trace s3 @ [Send failure_notice True]\<rparr>)"
    using fn by (rule send_with_retry_accept)
  finally show ?thesis
    unfolding s3 by (simp add: numeral_3_eq_3)
qed

lemma fresh_post_distinct:
  "fresh_post \<noteq> confirmation category_tech" "fresh_post \<noteq> failure_notice"
  "confirmation category_tech \<noteq> fresh_post" "failure_notice \<noteq> fresh_post"
  by (simp_all add: fresh_post_def channel_photo_def photo_message_def confirmation_def
      failure_notice_def text_message_def)

text \<open>
  Claim C4 fails on the code. A fresh draft is in the slot and the user presses
  publish; Telegram accepts the post to the channel, rejects the confirmation edit on
  each of its three attempts and accepts the error notice. The handler returns
  normally, the last thing the user is sent is the notice that publishing failed, the
  post is in the channel once, and the draft is still in the slot. A second press posts
  the same article to the channel a second time.
\<close>

theorem publish_delivered_draft_kept:
  "fst (publish_article env_confirm_lost bot_fresh) = Inr ()
   \<and> current_article bot_fresh = Some 4
   \<and> current_article (snd (publish_article env_confirm_lost bot_fresh)) = Some 4
   \<and> last (trace (snd (publish_article env_confirm_lost bot_fresh))) = Send failure_notice True
   \<and> count_list (trace bot_fresh) (Send fresh_post True) = 0
   \<and> count_list (trace (snd (publish_article env_confirm_lost bot_fresh)))
        (Send fresh_post True) = 1
   \<and> count_list
        (trace (snd (publish_article env_confirm_lost
                       (snd (publish_article env_confirm_lost bot_fresh)))))
        (Send fresh_post True) = 2"
proof -
  let ?tr = "[PageGet (ascii ''http://x''), Draw 1, Head (unsplash @ kw_tech_2), Draw 1,
              Send fresh_post True,
              Send (confirmation category_tech) False,
              Send (confirmation category_tech) False,
              Send (confirmation category_tech) False,
              Send failure_notice True]"
  let ?s1 = "bot_fresh\<lparr>trace := trace bot_fresh @ ?tr\<rparr>"
  have p1: "publish_article env_confirm_lost bot_fresh = (Inr (), ?s1)"
    using frame_refl by (rule publish_confirm_lost)
  have f1: "frame bot_fresh ?s1" by (simp add: frame_def)
  have p2: "publish_article env_confirm_lost ?s1 = (Inr (), ?s1\<lparr>trace := trace ?s1 @ ?tr\<rparr>)"
    using f1 by (rule publish_confirm_lost)
  have t0: "trace bot_fresh = [FeedGet (ascii ''https://habr.com/ru/rss/hub/python/''), Draw 1]"
    by (simp add: bot_fresh_def bot_fresh_eq)
  have c0: "count_list (trace bot_fresh) (Send fresh_post True) = 0"
    by (simp add: t0)
  have c1: "count_list (trace ?s1) (Send fresh_post True) = 1"
    using c0 by (simp add: fresh_post_distinct)
  have c2: "count_list (trace (?s1\<lparr>trace := trace ?s1 @ ?tr\<rparr>)) (Send fresh_post True) = 2"
    using c0 by (simp add: fresh_post_distinct)
  have e1: "snd (publish_article env_confirm_lost bot_fresh) = ?s1"
    by (simp only: p1 snd_conv)
  have e2: "snd (publish_article env_confirm_lost ?s1) = ?s1\<lparr>trace := trace ?s1 @ ?tr\<rparr>"
    by (simp only: p2 snd_conv)
  have r: "fst (publish_article env_confirm_lost bot_fresh) = Inr ()"
    by (simp only: p1 fst_conv)
  have d1: "current_article ?s1 = Some 4"
    using bot_fresh_fields(1) by simp
  have l: "last (trace ?s1) = Send failure_notice True"
    by simp
  show ?thesis
    unfolding e1 e2 using r bot_fresh_fields(1) d1 l c0 c1 c2 by (intro conjI)
qed

section \<open>Category processing\<close>

lemma try_get_fresh_article_categories:
  assumes "try_get_fresh_article e category_id s = (ok, s')"
  shows "categories s' = categories s"
proof -
  from try_get_fresh_article_cases [OF assms] show ?thesis
  proof
    assume "\<not> ok \<and> frame s s'"
    then have "frame s s'" ..
    from frame_fields [OF this] show ?thesis by simp
  next
    assume "ok \<and> map_of (categories s) category_id \<noteq> None
          \<and> (\<exists>s2 en art. frame s s2 \<and> fresh_article category_id en = Some art
            \<and> s' = s2\<lparr>current_article := Some (length (heap s)), heap := heap s @ [art]\<rparr>)"
    then obtain s2 art where f: "frame s s2"
      and s': "s' = s2\<lparr>current_article := Some (length (heap s)), heap := heap s @ [art]\<rparr>"
      by blast
    from frame_fields [OF f] show ?thesis by (simp add: s')
  qed
qed

lemma use_fallback_article_categories:
  "use_fallback_article e category_id s = (r, s') \<Longrightarrow> categories s' = categories s"
  by (auto simp: use_fallback_article_def choice_def emit_def split: option.splits if_splits)

lemma resolve_article_categories:
  assumes "resolve_article e category_id s = (r, s')"
  shows "categories s' = categories s"
proof -
  obtain ok s1 where t: "try_get_fresh_article e category_id s = (ok, s1)"
    by (cases "try_get_fresh_article e category_id s")
  have c1: "categories s1 = categories s" using t by (rule try_get_fresh_article_categories)
  show ?thesis
  proof (cases ok)
    case True
    then show ?thesis using assms t c1 by (simp add: resolve_article_def)
  next
    case False
    then have "use_fallback_article e category_id s1 = (r, s')"
      using assms t by (simp add: resolve_article_def)
    then show ?thesis using c1 use_fallback_article_categories by metis
  qed
qed

lemma send_news_message_frame:
  assumes "send_news_message e update image_url caption rm s = (r, s')"
  shows "frame s s'"
proof -
  obtain r1 s1 where p: "send_with_retry e (news_photo update image_url caption rm) s = (r1, s1)"
    by (cases "send_with_retry e (news_photo update image_url caption rm) s")
  have f1: "frame s s1" using p by (rule send_with_retry_frame)
  show ?thesis
  proof (cases r1)
    case (Inr u)
    then show ?thesis using assms p f1 by (simp add: send_news_message_def)
  next
    case (Inl err)
    then have "send_with_retry e (news_text update caption rm) s1 = (r, s')"
      using assms p by (simp add: send_news_message_def)
    then have "frame s1 s'" by (rule send_with_retry_frame)
    with f1 show ?thesis by (rule frame_trans)
  qed
qed

text \<open>The \<^verbatim>\<open>try\<close> block keeps the invariant and the catalogue's structure.\<close>

lemma process_category_try_wf:
  assumes "wf_bot s" and "process_category_try e update category_id s = (r, s')"
  shows "wf_bot s' \<and> categories s' = categories s"
proof -
  obtain r1 s1 where res: "resolve_article e category_id s = (r1, s1)"
    by (cases "resolve_article e category_id s")
  have w1: "wf_bot s1" using assms(1) res by (rule resolve_article_wf)
  have c1: "categories s1 = categories s" using res by (rule resolve_article_categories)
  show ?thesis
  proof (cases r1)
    case (Inl err)
    then show ?thesis using assms(2) res w1 c1 by (simp add: process_category_try_def)
  next
    case (Inr u)
    from get_image_ok [OF w1, of e] obtain url s2
      where g: "get_image_with_fallback e s1 = (Inr url, s2)" and f2: "frame s1 s2"
      by blast
    have w2: "wf_bot s2" using f2 w1 by (rule frame_wf)
    have c2: "categories s2 = categories s" using frame_fields [OF f2] c1 by simp
    have t: "process_category_try e update category_id s =
               (case map_of (categories s2) category_id of
                  None \<Rightarrow> (Inl KeyError, s2)
                | Some c \<Rightarrow>
                    (case current_article s2 of
                       None \<Rightarrow> (Inl KeyError, s2)
                     | Some a \<Rightarrow>
                         send_news_message e update url (post_text c (heap s2 ! a))
                           (Some (keyboard category_id)) s2))"
      using res Inr g by (simp add: process_category_try_def)
    have "frame s2 s'"
    proof (cases "map_of (categories s2) category_id")
      case None
      then show ?thesis using assms(2) t by (simp add: frame_refl)
    next
      case (Some c)
      show ?thesis
      proof (cases "current_article s2")
        case None
        then show ?thesis using assms(2) t Some by (simp add: frame_refl)
      next
        case (Some a)
        then have "send_news_message e update url (post_text c (heap s2 ! a))
                     (Some (keyboard category_id)) s2 = (r, s')"
          using assms(2) t \<open>map_of (categories s2) category_id = Some c\<close> by simp
        then show ?thesis by (rule send_news_message_frame)
      qed
    qed
    then have "wf_bot s'" and "categories s' = categories s2"
      using w2 frame_wf frame_fields by blast+
    then show ?thesis using c2 by simp
  qed
qed

section \<open>The recovery path\<close>

lemma env_loop_deliver:
  "deliver env_loop t r \<longleftrightarrow> req_method r = reply_text \<and> req_markup r = None"
  by (simp add: env_loop_def)

lemma send_news_message_loop:
  "\<exists>s'. send_news_message env_loop update url caption (Some kb) s = (Inl TelegramError, s')"
proof -
  let ?photo = "news_photo update url caption (Some kb)"
  let ?text = "news_text update caption (Some kb)"
  have "\<not> deliver env_loop t ?photo" for t
    by (simp add: env_loop_deliver news_photo_def photo_message_def)
  then have "\<forall>i<3. \<not> deliver env_loop (now s + i) ?photo" by simp
  from send_with_retry_reject [OF this] obtain s1
    where p: "send_with_retry env_loop ?photo s = (Inl TelegramError, s1)" by blast
  have "\<not> deliver env_loop t ?text" for t
    by (simp add: env_loop_deliver news_text_def text_message_def)
  then have "\<forall>i<3. \<not> deliver env_loop (now s1 + i) ?text" by simp
  from send_with_retry_reject [OF this] obtain s2
    where "send_with_retry env_loop ?text s1 = (Inl TelegramError, s2)" by blast
  then show ?thesis using p by (simp add: send_news_message_def)
qed

lemma process_category_try_loop:
  assumes "wf_bot s"
  shows "\<exists>err s'. process_category_try env_loop update category_id s = (Inl err, s')"
proof -
  obtain r1 s1 where res: "resolve_article env_loop category_id s = (r1, s1)"
    by (cases "resolve_article env_loop category_id s")
  have w1: "wf_bot s1" using assms(1) res by (rule resolve_article_wf)
  show ?thesis
  proof (cases r1)
    case (Inl err)
    then show ?thesis using res by (simp add: process_category_try_def)
  next
    case (Inr u)
    from get_image_ok [OF w1, of env_loop] obtain url s2
      where g: "get_image_with_fallback env_loop s1 = (Inr url, s2)"
      by blast
    have t: "process_category_try env_loop update category_id s =
               (case map_of (categories s2) category_id of
                  None \<Rightarrow> (Inl KeyError, s2)
                | Some c \<Rightarrow>
                    (case current_article s2 of
                       None \<Rightarrow> (Inl KeyError, s2)
                     | Some a \<Rightarrow>
                         send_news_message env_loop update url (post_text c (heap s2 ! a))
                           (Some (keyboard category_id)) s2))"
      using res Inr g by (simp add: process_category_try_def)
    show ?thesis
    proof (cases "map_of (categories s2) category_id")
      case None
      then show ?thesis using t by simp
    next
      case (Some c)
      show ?thesis
      proof (cases "current_article s2")
        case None
        then show ?thesis using t Some by simp
      next
        case (Some a)
        from send_news_message_loop [of update url "post_text c (heap s2 ! a)"
            "keyboard category_id" s2]
        show ?thesis using t \<open>map_of (categories s2) category_id = Some c\<close> Some by auto
      qed
    qed
  qed
qed

text \<open>
  In \<open>env_loop\<close> every call of \<^verbatim>\<open>process_category\<close> ends in its handler, whose notice
  is accepted, and calls \<^verbatim>\<open>process_category\<close> again: no depth is enough.
\<close>

lemma process_category_loop:
  assumes "wf_bot s" and "map_of (categories s) tech \<noteq> None"
  shows "process_category depth env_loop update category_id s = None"
  using assms
proof (induction depth arbitrary: s category_id)
  case 0
  then show ?case by simp
next
  case (Suc depth)
  from process_category_try_loop [OF Suc.prems(1)] obtain err s1
    where t: "process_category_try env_loop update category_id s = (Inl err, s1)"
    by blast
  from process_category_try_wf [OF Suc.prems(1) t]
  have w1: "wf_bot s1" and c1: "categories s1 = categories s" by simp_all
  have "deliver env_loop (now s1) recovery_notice"
    by (simp add: env_loop_deliver recovery_notice_def text_message_def)
  from send_with_retry_accept [OF this]
  have n: "send_with_retry env_loop recovery_notice s1
             = (Inr (), s1\<lparr>trace := trace s1 @ [Send recovery_notice True]\<rparr>)" .
  let ?s2 = "s1\<lparr>trace := trace s1 @ [Send recovery_notice True]\<rparr>"
  have "frame s1 ?s2" using n by (rule send_with_retry_frame)
  then have w2: "wf_bot ?s2" using w1 by (rule frame_wf)
  obtain c where m2: "map_of (categories ?s2) tech = Some c"
    using Suc.prems(2) c1 by auto
  from use_fallback_article_defined [OF w2 m2, of env_loop] obtain s3
    where u: "use_fallback_article env_loop tech ?s2 = (Inr (), s3)" by blast
  have w3: "wf_bot s3" using w2 u by (rule use_fallback_article_wf)
  have c3: "map_of (categories s3) tech \<noteq> None"
    using use_fallback_article_categories [OF u] m2 by simp
  have "process_category (Suc depth) env_loop update category_id s
          = process_category depth env_loop update tech s3"
    using t n u by simp
  then show ?case using Suc.IH [OF w3 c3] by simp
qed

text \<open>
  Claim C6 fails on the code. A user presses the Technologies button while the feeds
  are down and the transport rejects the photo and the text with the inline keyboard
  but accepts the plain notice: for no bound on the depth of the re-entry does the
  handler return.
\<close>

theorem category_recovery_diverges:
  "\<forall>depth. handle_message depth env_loop name_tech bot0 = None"
proof
  fix depth
  have "name_tech \<noteq> menu_random"
    by (simp add: name_tech_def menu_random_def)
  then have "handle_message depth env_loop name_tech bot0
               = process_category depth env_loop Update tech bot0"
    by (simp add: handle_message_def)
  also have "\<dots> = None"
    using wf_bot0 by (rule process_category_loop) (simp add: map_of_bot0_tech)
  finally show "handle_message depth env_loop name_tech bot0 = None" .
qed

section \<open>The path without failures\<close>

lemma resolve_article_ok:
  assumes "wf_bot s" and "map_of (categories s) category_id = Some c"
  shows "\<exists>s' a. resolve_article e category_id s = (Inr (), s') \<and> current_article s' = Some a"
proof -
  obtain ok s1 where t: "try_get_fresh_article e category_id s = (ok, s1)"
    by (cases "try_get_fresh_article e category_id s")
  have w1: "wf_bot s1" using t assms(1) by (rule try_get_fresh_article_wf)
  show ?thesis
  proof (cases ok)
    case True
    with try_get_fresh_article_cases [OF t] obtain s2 art
      where "s1 = s2\<lparr>current_article := Some (length (heap s)), heap := heap s @ [art]\<rparr>"
      by blast
    then have "current_article s1 = Some (length (heap s))" by simp
    moreover have "resolve_article e category_id s = (Inr (), s1)"
      using t True by (simp add: resolve_article_def)
    ultimately show ?thesis by blast
  next
    case False
    have m1: "map_of (categories s1) category_id = Some c"
      using try_get_fresh_article_categories [OF t] assms(2) by simp
    obtain s' a where u: "use_fallback_article e category_id s1 = (Inr (), s')"
      and c': "current_article s' = Some a"
      using use_fallback_article_defined [OF w1 m1, of e] by simp
    moreover have "resolve_article e category_id s = use_fallback_article e category_id s1"
      using t False by (simp add: resolve_article_def)
    ultimately show ?thesis by auto
  qed
qed

text \<open>
  With a transport that accepts every call, category processing returns at once:
  the draft is resolved and the photo message is sent.
\<close>

lemma process_category_accepted:
  assumes "wf_bot s" and "map_of (categories s) category_id = Some c"
    and "\<forall>t r. deliver e t r"
  shows "\<exists>s1 s'. resolve_article e category_id s = (Inr (), s1) \<and> frame s1 s'
           \<and> process_category (Suc depth) e update category_id s = Some (Inr (), s')"
proof -
  from resolve_article_ok [OF assms(1,2), of e] obtain s1 a
    where res: "resolve_article e category_id s = (Inr (), s1)"
      and d: "current_article s1 = Some a"
    by blast
  have w1: "wf_bot s1" using assms(1) res by (rule resolve_article_wf)
  have c1: "categories s1 = categories s" using res by (rule resolve_article_categories)
  from get_image_ok [OF w1, of e] obtain url s2
    where g: "get_image_with_fallback e s1 = (Inr url, s2)" and f2: "frame s1 s2"
    by blast
  have m2: "map_of (categories s2) category_id = Some c"
    and d2: "current_article s2 = Some a"
    using frame_fields [OF f2] c1 assms(2) d by simp_all
  let ?photo = "news_photo update url (post_text c (heap s2 ! a)) (Some (keyboard category_id))"
  have "deliver e (now s2) ?photo" using assms(3) by simp
  from send_with_retry_accept [OF this]
  have p: "send_with_retry e ?photo s2 = (Inr (), s2\<lparr>trace := trace s2 @ [Send ?photo True]\<rparr>)" .
  let ?s3 = "s2\<lparr>trace := trace s2 @ [Send ?photo True]\<rparr>"
  have "frame s2 ?s3" using p by (rule send_with_retry_frame)
  with f2 have f3: "frame s1 ?s3" by (rule frame_trans)
  have "process_category_try e update category_id s = (Inr (), ?s3)"
    using res g m2 d2 p by (simp add: process_category_try_def send_news_message_def)
  then have "process_category (Suc depth) e update category_id s = Some (Inr (), ?s3)"
    by simp
  then show ?thesis using res f3 by blast
qed

lemma catalogue_frame: "frame s s' \<Longrightarrow> catalogue s' = catalogue s"
  using frame_fields [of s s'] by (simp add: catalogue_def)

lemma resolve_down_bot0:
  "\<exists>s1. resolve_article env_down tech bot0 = (Inr (), s1)
        \<and> categories s1 = categories bot0
        \<and> heap s1 = initial_heap[1 := (initial_heap ! 1)\<lparr>category := Some tech,
                                                          is_fallback := Some True\<rparr>]"
proof -
  have down: "\<forall>u \<in> set (rss category_tech). \<forall>t.
                feed env_down t u = None \<or> feed env_down t u = Some []"
    by (simp add: env_down_def)
  let ?s1 = "bot0\<lparr>trace := trace bot0 @ map FeedGet (rss category_tech)\<rparr>"
  have t: "try_get_fresh_article env_down tech bot0 = (False, ?s1)"
    using map_of_bot0_tech try_feeds_all_fail [OF down]
    by (simp add: try_get_fresh_article_def)
  have w1: "wf_bot ?s1" using t wf_bot0 by (rule try_get_fresh_article_wf)
  have m1: "map_of (categories ?s1) tech = Some category_tech"
    using map_of_bot0_tech by simp
  have pick: "fallback_articles category_tech
                ! (rng env_down (now ?s1) mod length (fallback_articles category_tech)) = 1"
    by (simp add: env_down_def category_tech_def)
  have h: "heap ?s1 = initial_heap" by (simp add: bot0_def)
  from use_fallback_article_defined [OF w1 m1, of env_down]
  obtain s' where "use_fallback_article env_down tech ?s1 = (Inr (), s')"
    and "categories s' = categories bot0"
    and "heap s' = initial_heap[1 := (initial_heap ! 1)\<lparr>category := Some tech,
                                                          is_fallback := Some True\<rparr>]"
    unfolding pick h by (simp add: emit_def)
  then show ?thesis using t by (simp add: resolve_article_def)
qed

text \<open>
  Claim C7 fails on the code. A user presses the Technologies button while the feeds
  are down: the handler returns normally, and afterwards the second fallback record of
  \<^verbatim>\<open>tech\<close> in the catalogue carries the keys \<^verbatim>\<open>category\<close> and \<^verbatim>\<open>is_fallback\<close>, which
  it did not have at startup: the catalogue is no longer the one built at startup.
\<close>

theorem catalogue_mutated:
  "\<exists>s'. handle_message 1 env_down name_tech bot0 = Some (Inr (), s')
      \<and> catalogue s' \<noteq> catalogue bot0
      \<and> snd (snd (catalogue bot0 ! 0)) ! 1
          = \<lparr>title = title_tech_2, summary = summary_tech_2, link = None,
             category = None, is_fallback = None\<rparr>
      \<and> snd (snd (catalogue s' ! 0)) ! 1
          = \<lparr>title = title_tech_2, summary = summary_tech_2, link = None,
             category = Some tech, is_fallback = Some True\<rparr>"
proof -
  have acc: "\<forall>t r. deliver env_down t r" by (simp add: env_down_def)
  from process_category_accepted [OF wf_bot0 map_of_bot0_tech acc, of 0 Update]
  obtain s1 s' where res: "resolve_article env_down tech bot0 = (Inr (), s1)"
    and f: "frame s1 s'"
    and p: "process_category 1 env_down Update tech bot0 = Some (Inr (), s')"
    by auto
  from resolve_down_bot0 res
  have c1: "categories s1 = categories bot0"
    and h1: "heap s1 = initial_heap[1 := (initial_heap ! 1)\<lparr>category := Some tech,
                                                          is_fallback := Some True\<rparr>]"
    by auto
  have cat': "catalogue s' = catalogue s1" using f by (rule catalogue_frame)
  have before: "snd (snd (catalogue bot0 ! 0)) ! 1
          = \<lparr>title = title_tech_2, summary = summary_tech_2, link = None,
             category = None, is_fallback = None\<rparr>"
    by (simp add: catalogue_def bot0_def category_tech_def initial_heap_def fallback_record_def)
  have after: "snd (snd (catalogue s' ! 0)) ! 1
          = \<lparr>title = title_tech_2, summary = summary_tech_2, link = None,
             category = Some tech, is_fallback = Some True\<rparr>"
    unfolding cat'
    by (simp add: catalogue_def c1 h1)
       (simp add: bot0_def category_tech_def initial_heap_def fallback_record_def)
  have "catalogue s' \<noteq> catalogue bot0"
  proof
    assume "catalogue s' = catalogue bot0"
    then have "snd (snd (catalogue s' ! 0)) ! 1 = snd (snd (catalogue bot0 ! 0)) ! 1" by simp
    then show False unfolding before after by simp
  qed
  moreover have "name_tech \<noteq> menu_random"
    by (simp add: name_tech_def menu_random_def)
  then have "handle_message 1 env_down name_tech bot0 = Some (Inr (), s')"
    using p by (simp add: handle_message_def)
  ultimately show ?thesis using before after by blast
qed

section \<open>The invariant holds in every reachable state\<close>

lemma process_category_wf:
  assumes "wf_bot s" and "process_category depth e update category_id s = Some (r, s')"
  shows "wf_bot s'"
  using assms
proof (induction depth arbitrary: s category_id)
  case 0
  then show ?case by simp
next
  case (Suc depth)
  obtain r1 s1 where t: "process_category_try e update category_id s = (r1, s1)"
    by (cases "process_category_try e update category_id s")
  have w1: "wf_bot s1" using process_category_try_wf [OF Suc.prems(1) t] by simp
  show ?case
  proof (cases r1)
    case (Inr u)
    then show ?thesis using Suc.prems(2) t w1 by simp
  next
    case (Inl err)
    obtain r2 s2 where n: "send_with_retry e recovery_notice s1 = (r2, s2)"
      by (cases "send_with_retry e recovery_notice s1")
    have w2: "wf_bot s2" using send_with_retry_frame [OF n] w1 by (rule frame_wf)
    show ?thesis
    proof (cases r2)
      case Inl
      then show ?thesis using Suc.prems(2) t \<open>r1 = Inl err\<close> n w2 by simp
    next
      case (Inr u)
      obtain r3 s3 where f: "use_fallback_article e tech s2 = (r3, s3)"
        by (cases "use_fallback_article e tech s2")
      have w3: "wf_bot s3" using w2 f by (rule use_fallback_article_wf)
      show ?thesis
      proof (cases r3)
        case Inl
        then show ?thesis using Suc.prems(2) t \<open>r1 = Inl err\<close> n Inr f w3 by simp
      next
        case (Inr u')
        then have "process_category depth e update tech s3 = Some (r, s')"
          using Suc.prems(2) t \<open>r1 = Inl err\<close> n \<open>r2 = Inr u\<close> f by simp
        with w3 show ?thesis by (rule Suc.IH)
      qed
    qed
  qed
qed

lemma wf_bot_clear: "wf_bot s \<Longrightarrow> wf_bot (s\<lparr>current_article := None\<rparr>)"
  by (simp add: wf_bot_def wf_draft_def wf_category_def)

lemma publish_try_wf:
  assumes "wf_bot s" and "current_article s = Some a" and "publish_try e a s = (r, s')"
  shows "wf_bot s'"
proof -
  from publish_try_run [OF assms(1,2), of e] obtain c url tr
    where run: "publish_try e a s =
               (case send_with_retry e
                       (channel_photo (channel_id s) url (post_text c (heap s ! a)))
                       (s\<lparr>trace := trace s @ tr\<rparr>) of
                  (Inl err, s2) \<Rightarrow> (Inl err, s2)
                | (Inr u, s2) \<Rightarrow>
                    (case send_with_retry e (confirmation c) s2 of
                       (Inl err, s3) \<Rightarrow> (Inl err, s3)
                     | (Inr u, s3) \<Rightarrow> (Inr (), s3\<lparr>current_article := None\<rparr>)))"
    by blast
  let ?chan = "channel_photo (channel_id s) url (post_text c (heap s ! a))"
  let ?s1 = "s\<lparr>trace := trace s @ tr\<rparr>"
  have "frame s ?s1" by (simp add: frame_def)
  then have w1: "wf_bot ?s1" using assms(1) by (rule frame_wf)
  obtain r2 s2 where a2: "send_with_retry e ?chan ?s1 = (r2, s2)"
    by (cases "send_with_retry e ?chan ?s1")
  have w2: "wf_bot s2" using send_with_retry_frame [OF a2] w1 by (rule frame_wf)
  show ?thesis
  proof (cases r2)
    case Inl
    then show ?thesis using assms(3) a2 w2 unfolding run by simp
  next
    case (Inr u)
    obtain r3 s3 where a3: "send_with_retry e (confirmation c) s2 = (r3, s3)"
      by (cases "send_with_retry e (confirmation c) s2")
    have w3: "wf_bot s3" using send_with_retry_frame [OF a3] w2 by (rule frame_wf)
    show ?thesis
    proof (cases r3)
      case Inl
      then show ?thesis using assms(3) a2 Inr a3 w3 unfolding run by simp
    next
      case (Inr u')
      then have "s' = s3\<lparr>current_article := None\<rparr>"
        using assms(3) a2 \<open>r2 = Inr u\<close> a3 unfolding run by simp
      then show ?thesis using wf_bot_clear [OF w3] by simp
    qed
  qed
qed

lemma publish_article_wf:
  assumes "wf_bot s" and "publish_article e s = (r, s')"
  shows "wf_bot s'"
proof (cases "current_article s")
  case None
  then have "send_with_retry e warning s = (r, s')"
    using assms(2) by (simp add: publish_article_def)
  from send_with_retry_frame [OF this] assms(1) show ?thesis by (rule frame_wf)
next
  case (Some a)
  obtain r1 s1 where t: "publish_try e a s = (r1, s1)"
    by (cases "publish_try e a s")
  have w1: "wf_bot s1" using assms(1) Some t by (rule publish_try_wf)
  show ?thesis
  proof (cases r1)
    case (Inr u)
    then show ?thesis using assms(2) Some t w1 by (simp add: publish_article_def)
  next
    case (Inl err)
    then have "send_with_retry e failure_notice s1 = (r, s')"
      using assms(2) Some t by (simp add: publish_article_def)
    from send_with_retry_frame [OF this] w1 show ?thesis by (rule frame_wf)
  qed
qed

lemma random_news_wf:
  assumes "wf_bot s" and "random_news depth e update s = Some (r, s')"
  shows "wf_bot s'"
proof -
  obtain r1 s1 where c: "choice e (map fst (categories s)) s = (r1, s1)"
    by (cases "choice e (map fst (categories s)) s")
  have w1: "wf_bot s1" using frame_choice [OF c] assms(1) by (rule frame_wf)
  show ?thesis
  proof (cases r1)
    case Inl
    then show ?thesis using assms(2) c w1 by (simp add: random_news_def)
  next
    case (Inr category_id)
    then have "process_category depth e update category_id s1 = Some (r, s')"
      using assms(2) c by (simp add: random_news_def)
    with w1 show ?thesis by (rule process_category_wf)
  qed
qed

lemma handle_message_wf:
  assumes "wf_bot s" and "handle_message depth e txt s = Some (r, s')"
  shows "wf_bot s'"
proof -
  consider (random) "random_news depth e Update s = Some (r, s')"
    | (category) category_id where "process_category depth e Update category_id s = Some (r, s')"
    | (send) req where "send_with_retry e req s = (r, s')"
    using assms(2) by (auto simp: handle_message_def help_command_def split: if_splits)
  then show ?thesis
  proof cases
    case random
    with assms(1) show ?thesis by (rule random_news_wf)
  next
    case category
    with assms(1) show ?thesis by (rule process_category_wf)
  next
    case send
    from send_with_retry_frame [OF this] assms(1) show ?thesis by (rule frame_wf)
  qed
qed

lemma callback_try_wf:
  assumes "wf_bot s" and "callback_try depth e data s = Some (r, s')"
  shows "wf_bot s'"
proof -
  consider (category) category_id where
      "process_category depth e CallbackQuery category_id s = Some (r, s')"
    | (publish) "publish_article e s = (r, s')"
    | (same) "s' = s"
    using assms(2) by (auto simp: callback_try_def split: if_splits list.splits)
  then show ?thesis
  proof cases
    case category
    with assms(1) show ?thesis by (rule process_category_wf)
  next
    case publish
    with assms(1) show ?thesis by (rule publish_article_wf)
  next
    case same
    then show ?thesis using assms(1) by simp
  qed
qed

lemma handle_callback_wf:
  assumes "wf_bot s" and "handle_callback depth e data s = Some (r, s')"
  shows "wf_bot s'"
proof (cases "deliver e (now s) (text_message answer [] None False)")
  case False
  then have "s' = emit (Send (text_message answer [] None False) False) s"
    using assms(2) by (simp add: handle_callback_def)
  then show ?thesis using frame_emit assms(1) frame_wf by metis
next
  case True
  let ?s0 = "emit (Send (text_message answer [] None False) True) s"
  have w0: "wf_bot ?s0" using frame_emit assms(1) by (rule frame_wf)
  from True assms(2) obtain r1 s1 where t: "callback_try depth e data ?s0 = Some (r1, s1)"
    by (cases "callback_try depth e data ?s0") (auto simp: handle_callback_def)
  have w1: "wf_bot s1" using w0 t by (rule callback_try_wf)
  show ?thesis
  proof (cases r1)
    case (Inr u)
    then show ?thesis using assms(2) True t w1 by (simp add: handle_callback_def)
  next
    case (Inl err)
    then have "send_with_retry e
                 (text_message edit_message_text notice_callback_failed None False) s1 = (r, s')"
      using assms(2) True t by (simp add: handle_callback_def)
    from send_with_retry_frame [OF this] w1 show ?thesis by (rule frame_wf)
  qed
qed

lemma dispatch_wf:
  assumes "wf_bot s" and "dispatch depth e i s = Some (r, s')"
  shows "wf_bot s'"
proof (cases i)
  case CmdStart
  then have "send_with_retry e
               (text_message reply_text welcome_text
                  (Some (ReplyKeyboard [[menu_random], [name_tech, name_politics], [menu_help]]))
                  True) s = (r, s')"
    using assms(2) by (simp add: dispatch_def start_def)
  from send_with_retry_frame [OF this] assms(1) show ?thesis by (rule frame_wf)
next
  case CmdHelp
  then have "send_with_retry e (text_message reply_text help_text None True) s = (r, s')"
    using assms(2) by (simp add: dispatch_def help_command_def)
  from send_with_retry_frame [OF this] assms(1) show ?thesis by (rule frame_wf)
next
  case CmdRandom
  then have "random_news depth e Update s = Some (r, s')"
    using assms(2) by (simp add: dispatch_def)
  with assms(1) show ?thesis by (rule random_news_wf)
next
  case (Message msg)
  then have "handle_message depth e msg s = Some (r, s')"
    using assms(2) by (simp add: dispatch_def)
  with assms(1) show ?thesis by (rule handle_message_wf)
next
  case (Callback data)
  then have "handle_callback depth e data s = Some (r, s')"
    using assms(2) by (simp add: dispatch_def)
  with assms(1) show ?thesis by (rule handle_callback_wf)
qed

text \<open>
  Every state the bot reaches from its construction, by any sequence of interactions in
  any outside world, satisfies the invariant.
\<close>

lemma interactions_wf:
  "wf_bot s \<Longrightarrow> interactions depth e inputs s = Some s' \<Longrightarrow> wf_bot s'"
proof (induction inputs arbitrary: s)
  case Nil
  then show ?case by simp
next
  case (Cons i rest)
  from Cons.prems(2) obtain r s1 where d: "dispatch depth e i s = Some (r, s1)"
    and rest: "interactions depth e rest s1 = Some s'"
    by (cases "dispatch depth e i s") auto
  have "wf_bot s1" using Cons.prems(1) d by (rule dispatch_wf)
  then show ?case using rest by (rule Cons.IH)
qed

lemma reachable_wf: "interactions depth e inputs bot0 = Some s' \<Longrightarrow> wf_bot s'"
  using wf_bot0 by (rule interactions_wf)

end
